theory Spec2Isabelle
  imports Complex_Main
begin

section \<open>Python values used by cellSP\<close>

text \<open>
  The model covers \<^verbatim>\<open>cellSP/characterize/_instant.py\<close> and
  \<^verbatim>\<open>cellSP/preprocessing/_impute.py\<close>.  A Python exception is the left summand of a
  result.
\<close>

datatype py_error =
    ValueError string
  | KeyError string
  | IndexError
  | AssertionError
  | TypeError
  | FileNotFoundError string

definition bindE :: "py_error + 'a \<Rightarrow> ('a \<Rightarrow> py_error + 'b) \<Rightarrow> py_error + 'b" where
  "bindE m f = (case m of Inl e \<Rightarrow> Inl e | Inr x \<Rightarrow> f x)"

text \<open>A comprehension or loop whose body may raise: the first exception, left to right, wins.\<close>

fun mapM :: "('a \<Rightarrow> py_error + 'b) \<Rightarrow> 'a list \<Rightarrow> py_error + 'b list" where
  "mapM f [] = Inr []"
| "mapM f (x # xs) =
     (case f x of
        Inl e \<Rightarrow> Inl e
      | Inr y \<Rightarrow> (case mapM f xs of Inl e \<Rightarrow> Inl e | Inr ys \<Rightarrow> Inr (y # ys)))"

text \<open>\<^verbatim>\<open>xs[i]\<close> for a non-negative index.\<close>

definition py_get :: "'a list \<Rightarrow> nat \<Rightarrow> py_error + 'a" where
  "py_get xs i = (if i < length xs then Inr (xs ! i) else Inl IndexError)"

text \<open>\<^verbatim>\<open>xs[:k]\<close>: a negative bound counts from the end.\<close>

definition py_take :: "int \<Rightarrow> 'a list \<Rightarrow> 'a list" where
  "py_take k xs =
     (if k < 0 then take (nat (int (length xs) + k)) xs else take (nat k) xs)"

text \<open>
  \<^verbatim>\<open>list.index(x)\<close>: the first position of \<open>x\<close>, or ValueError (its message without
  the quotes Python puts around \<open>x\<close>).
\<close>

fun find_index_of :: "'a list \<Rightarrow> 'a \<Rightarrow> nat option" where
  "find_index_of [] x = None"
| "find_index_of (y # ys) x =
     (if y = x then Some 0 else map_option Suc (find_index_of ys x))"

definition list_index :: "string list \<Rightarrow> string \<Rightarrow> py_error + nat" where
  "list_index xs x =
     (case find_index_of xs x of
        None \<Rightarrow> Inl (ValueError (x @ '' is not in list''))
      | Some k \<Rightarrow> Inr k)"

text \<open>\<^verbatim>\<open>s.split(c)\<close> with an explicit one-character separator.\<close>

fun split_on :: "char \<Rightarrow> string \<Rightarrow> string list" where
  "split_on c [] = [[]]"
| "split_on c (x # xs) =
     (if x = c then [] # split_on c xs
      else (case split_on c xs of
              [] \<Rightarrow> [[x]]
            | w # ws \<Rightarrow> (x # w) # ws))"

text \<open>\<^verbatim>\<open>sep.join(xs)\<close>.\<close>

fun join :: "string \<Rightarrow> string list \<Rightarrow> string" where
  "join sep [] = []"
| "join sep [x] = x"
| "join sep (x # y # ys) = x @ sep @ join sep (y # ys)"

text \<open>\<^verbatim>\<open>s.strip(chars)\<close>.\<close>

definition py_strip :: "string \<Rightarrow> string \<Rightarrow> string" where
  "py_strip chars s =
     rev (dropWhile (\<lambda>c. c \<in> set chars) (rev (dropWhile (\<lambda>c. c \<in> set chars) s)))"

text \<open>\<^verbatim>\<open>itertools.combinations(xs, 2)\<close>, in the order itertools yields the pairs.\<close>

fun combinations2 :: "'a list \<Rightarrow> ('a \<times> 'a) list" where
  "combinations2 [] = []"
| "combinations2 (x # xs) = map (Pair x) xs @ combinations2 xs"

text \<open>\<^verbatim>\<open>str(n)\<close> for an integer.\<close>

function str_nat :: "nat \<Rightarrow> string" where
  "str_nat n =
     (if n < 10 then [''0123456789'' ! n]
      else str_nat (n div 10) @ [''0123456789'' ! (n mod 10)])"
  by pat_completeness auto
termination
  by (relation "measure id") auto

declare str_nat.simps [simp del]

definition str_int :: "int \<Rightarrow> string" where
  "str_int i = (if i < 0 then ''-'' @ str_nat (nat (- i)) else str_nat (nat i))"

section \<open>The annotated data container\<close>

text \<open>
  An entry of a numpy array: a number, read as a real, or NaN (the infinities are not
  modelled).  A comparison with NaN is false, \<^verbatim>\<open>==\<close> included, and \<^verbatim>\<open>-np.log10\<close> of NaN
  is NaN.  Thresholds and the scores the helpers return are read as reals.
\<close>

datatype pyfloat = Num real | NaN

text \<open>\<^verbatim>\<open>a == b\<close>\<close>

fun feq :: "pyfloat \<Rightarrow> pyfloat \<Rightarrow> bool" where
  "feq (Num x) (Num y) = (x = y)"
| "feq (Num x) NaN = False"
| "feq NaN b = False"

text \<open>\<^verbatim>\<open>a < alpha\<close>\<close>

fun fless :: "pyfloat \<Rightarrow> real \<Rightarrow> bool" where
  "fless (Num x) alpha = (x < alpha)"
| "fless NaN alpha = False"

text \<open>\<^verbatim>\<open>-np.log10(a)\<close>\<close>

fun neglog10 :: "pyfloat \<Rightarrow> pyfloat" where
  "neglog10 (Num x) = Num (- log 10 x)"
| "neglog10 NaN = NaN"

fun num_of :: "pyfloat \<Rightarrow> real" where
  "num_of (Num x) = x"
| "num_of NaN = 0"

type_synonym matrix = "pyfloat list list"

text \<open>
  Rows of the tables kept in \<^verbatim>\<open>uns\<close>, with the columns the code reads or writes.
\<close>

record clique_row =
  Vertices :: string

record cpb_row =
  g1g2 :: string
  gene_id1 :: string
  gene_id2 :: string
  p_val_cond :: real

record fsm_row =
  fsm_genes :: string
  fsm_cells :: nat
  fsm_uIDs :: string

text \<open>
  The biclustering table: columns gene-pairs, genes, uIDs, #cells, combined,
  pre cell expansion, post cell expansion, instant average, instant score.
\<close>

record bic_row =
  bic_gene_pairs :: string
  bic_genes :: string
  bic_uIDs :: string
  bic_cells :: nat
  bic_combined :: int
  bic_pre_cell_expansion :: real
  bic_post_cell_expansion :: real
  bic_instant_average :: string
  bic_instant_score :: string

text \<open>What a key of \<^verbatim>\<open>adata.uns\<close> can hold.\<close>

datatype uns_value =
    GeneList "string list"
  | PValues "matrix list"
  | CliqueTable "clique_row list"
  | CpbTable "cpb_row list"
  | Transcripts "string list"
  | FsmTable "fsm_row list"
  | BiclusterTable "bic_row list"

text \<open>\<^verbatim>\<open>adata.raw\<close>: the frozen copy AnnData keeps (its X and its variables).\<close>

record raw_data =
  raw_X :: matrix
  raw_var_names :: "string list"

record anndata =
  X :: matrix
  obs_names :: "string list"
  var_names :: "string list"
  uns :: "string \<rightharpoonup> uns_value"
  raw :: "raw_data option"

definition n_obs :: "anndata \<Rightarrow> nat" where
  "n_obs a = length (obs_names a)"

definition lookup_uns :: "(string \<rightharpoonup> uns_value) \<Rightarrow> string \<Rightarrow> py_error + uns_value" where
  "lookup_uns u k = (case u k of None \<Rightarrow> Inl (KeyError k) | Some v \<Rightarrow> Inr v)"

text \<open>
  Using a value as the kind of object the code expects.  A value of another kind fails
  there in Python with AttributeError or TypeError; the model has the one error for both.
\<close>

definition as_gene_list :: "uns_value \<Rightarrow> py_error + string list" where
  "as_gene_list v = (case v of GeneList g \<Rightarrow> Inr g | _ \<Rightarrow> Inl TypeError)"

definition as_pvalues :: "uns_value \<Rightarrow> py_error + matrix list" where
  "as_pvalues v = (case v of PValues p \<Rightarrow> Inr p | _ \<Rightarrow> Inl TypeError)"

definition as_cliques :: "uns_value \<Rightarrow> py_error + clique_row list" where
  "as_cliques v = (case v of CliqueTable t \<Rightarrow> Inr t | _ \<Rightarrow> Inl TypeError)"

definition as_cpb :: "uns_value \<Rightarrow> py_error + cpb_row list" where
  "as_cpb v = (case v of CpbTable t \<Rightarrow> Inr t | _ \<Rightarrow> Inl TypeError)"

definition as_transcripts :: "uns_value \<Rightarrow> py_error + string list" where
  "as_transcripts v = (case v of Transcripts t \<Rightarrow> Inr t | _ \<Rightarrow> Inl TypeError)"

text \<open>
  The distance threshold only reaches this code as the text an f-string prints for it,
  so it is carried as that text.
\<close>

type_synonym threshold = string

definition pp_key :: "threshold \<Rightarrow> string" where
  "pp_key distance_threshold = ''pp_test_d'' @ distance_threshold @ ''_pvalues''"

definition cliques_key :: "int \<Rightarrow> string" where
  "cliques_key n_vertices = ''nV'' @ str_int n_vertices @ ''_cliques''"

text \<open>
  The outcome of a call on \<^verbatim>\<open>adata_st\<close>: the exception raised or a normal return, each
  with the state of the object at that moment.
\<close>

datatype outcome = Raised py_error anndata | Returned anndata

section \<open>analyse\_fsm\<close>

text \<open>\<^verbatim>\<open>cell[i][j]\<close>.\<close>

definition get_chain :: "matrix \<Rightarrow> nat \<Rightarrow> nat \<Rightarrow> py_error + pyfloat" where
  "get_chain cell i j = bindE (py_get cell i) (\<lambda>row. py_get row j)"

text \<open>\<^verbatim>\<open>[list(adata_st.uns['geneList']).index(x) for x in i.Vertices.split(",")]\<close>\<close>

definition gene_indexes :: "(string \<rightharpoonup> uns_value) \<Rightarrow> string \<Rightarrow> py_error + nat list" where
  "gene_indexes u vertices =
     mapM (\<lambda>x. bindE (lookup_uns u ''geneList'') (\<lambda>v.
             bindE (as_gene_list v) (\<lambda>geneList. list_index geneList x)))
       (split_on CHR '','' vertices)"

text \<open>\<^verbatim>\<open>all([cell[i][j] < alpha for i, j in list(combinations(gene_indexes, 2))])\<close>\<close>

definition cell_passes :: "real \<Rightarrow> nat list \<Rightarrow> matrix \<Rightarrow> py_error + bool" where
  "cell_passes alpha gis cell =
     bindE (mapM (\<lambda>(i, j). get_chain cell i j) (combinations2 gis))
       (\<lambda>vs. Inr (list_all (\<lambda>v. fless v alpha) vs))"

text \<open>The loop over \<^verbatim>\<open>enumerate(pp_pvalues)\<close> that appends \<^verbatim>\<open>cell_ids[n]\<close>.\<close>

fun collect_uids ::
  "real \<Rightarrow> nat list \<Rightarrow> string list \<Rightarrow> nat \<Rightarrow> matrix list \<Rightarrow> py_error + string list" where
  "collect_uids alpha gis cell_ids n [] = Inr []"
| "collect_uids alpha gis cell_ids n (cell # cells) =
     (case cell_passes alpha gis cell of
        Inl e \<Rightarrow> Inl e
      | Inr ok \<Rightarrow>
          if ok then
            (case py_get cell_ids n of
               Inl e \<Rightarrow> Inl e
             | Inr uid \<Rightarrow>
                 (case collect_uids alpha gis cell_ids (Suc n) cells of
                    Inl e \<Rightarrow> Inl e
                  | Inr us \<Rightarrow> Inr (uid # us)))
          else collect_uids alpha gis cell_ids (Suc n) cells)"

text \<open>One pass of the loop over \<^verbatim>\<open>df_topk.iterrows()\<close>: the row appended, if any.\<close>

definition analyse_clique ::
  "anndata \<Rightarrow> threshold \<Rightarrow> real \<Rightarrow> clique_row \<Rightarrow> py_error + fsm_row option" where
  "analyse_clique adata_st distance_threshold alpha i =
     bindE (gene_indexes (uns adata_st) (Vertices i)) (\<lambda>gis.
     bindE (lookup_uns (uns adata_st) (pp_key distance_threshold)) (\<lambda>v.
     bindE (as_pvalues v) (\<lambda>pp.
     bindE (collect_uids alpha gis (obs_names adata_st) 0 pp) (\<lambda>uids.
       Inr (if 5 \<le> length uids
            then Some \<lparr>fsm_genes = Vertices i, fsm_cells = length uids,
                       fsm_uIDs = join '','' uids\<rparr>
            else None)))))"

definition analyse_fsm ::
  "anndata \<Rightarrow> int \<Rightarrow> int \<Rightarrow> threshold \<Rightarrow> real \<Rightarrow> outcome" where
  "analyse_fsm adata_st top_k n_vertices distance_threshold alpha =
     (case bindE (lookup_uns (uns adata_st) (cliques_key n_vertices)) as_cliques of
        Inl e \<Rightarrow> Raised e adata_st
      | Inr tbl \<Rightarrow>
          (case mapM (analyse_clique adata_st distance_threshold alpha) (py_take top_k tbl) of
             Inl e \<Rightarrow> Raised e adata_st
           | Inr appended \<Rightarrow>
               Returned (adata_st\<lparr>uns := (uns adata_st)
                 (''instant_fsm'' \<mapsto> FsmTable (List.map_filter id appended))\<rparr>)))"

section \<open>bicluster\_instant\<close>

text \<open>
  The helpers of \<^verbatim>\<open>cellSP/characterize/_bicluster.py\<close> and of scikit-learn are not part of
  the two modules modelled here; they are parameters.  \<^verbatim>\<open>las_run\<close> stands for building
  \<^verbatim>\<open>LargeAverageSubmatrices(num_biclusters, randomized_searches, scale_data, threads)\<close>
  and reading \<^verbatim>\<open>model.run(pval_matrix).biclusters\<close>; \<^verbatim>\<open>float_str\<close> is \<^verbatim>\<open>str\<close> on a float.
\<close>

record bicluster =
  rows :: "nat list"
  cols :: "nat list"
  score :: real

record 's helpers =
  las_run :: "int \<Rightarrow> int \<Rightarrow> bool \<Rightarrow> int \<Rightarrow> matrix \<Rightarrow> bicluster list"
  scale :: "matrix \<Rightarrow> matrix"
  log_combs :: "nat \<Rightarrow> real list"
  expand_bicluster_rows :: "matrix \<Rightarrow> nat list \<Rightarrow> nat list \<Rightarrow> nat list"
  get_sprawl_score :: "nat list \<Rightarrow> matrix \<Rightarrow> nat list \<Rightarrow> real list \<Rightarrow> real list \<Rightarrow> real"
  expand_bicluster ::
    "bic_row list \<Rightarrow> matrix \<Rightarrow> matrix \<Rightarrow> string list \<Rightarrow> 's list \<Rightarrow> nat list \<Rightarrow>
     real list \<Rightarrow> real list \<Rightarrow> string list \<Rightarrow> bic_row list \<times> 's list"
  float_str :: "pyfloat \<Rightarrow> string"

definition cpb_missing :: string where
  "cpb_missing = ''CPB results not found in adata_st.uns. Please run `run_instant` first.''"

text \<open>\<^verbatim>\<open>cpb_results[cpb_results.p_val_cond <= alpha]\<close>\<close>

definition filter_cpb :: "real \<Rightarrow> cpb_row list \<Rightarrow> cpb_row list" where
  "filter_cpb alpha t = filter (\<lambda>r. p_val_cond r \<le> alpha) t"

text \<open>\<^verbatim>\<open>cell[index1, index2]\<close> on a two-dimensional array.\<close>

definition get_tuple :: "matrix \<Rightarrow> nat \<Rightarrow> nat \<Rightarrow> py_error + pyfloat" where
  "get_tuple cell i j =
     (if i < length cell \<and> j < length (cell ! i) then Inr (cell ! i ! j) else Inl IndexError)"

text \<open>\<^verbatim>\<open>assert cell[index1, index2] == cell[index1][index2]\<close>\<close>

definition assert_same_entry :: "matrix \<Rightarrow> nat \<Rightarrow> nat \<Rightarrow> py_error + unit" where
  "assert_same_entry cell index1 index2 =
     bindE (get_tuple cell index1 index2) (\<lambda>a.
     bindE (get_chain cell index1 index2) (\<lambda>b.
       if feq a b then Inr () else Inl AssertionError))"

text \<open>
  The inner loop over \<^verbatim>\<open>enumerate(pp_pvalues)\<close>: the assertion, then the write of
  \<^verbatim>\<open>pval_matrix[pos][n]\<close>.
\<close>

fun fill_cells ::
  "nat \<Rightarrow> nat \<Rightarrow> nat \<Rightarrow> nat \<Rightarrow> matrix list \<Rightarrow> matrix \<Rightarrow> py_error + matrix" where
  "fill_cells index1 index2 n pos [] pval_matrix = Inr pval_matrix"
| "fill_cells index1 index2 n pos (cell # cells) pval_matrix =
     (case assert_same_entry cell index1 index2 of
        Inl e \<Rightarrow> Inl e
      | Inr u \<Rightarrow>
          (case get_chain cell index1 index2 of
             Inl e \<Rightarrow> Inl e
           | Inr v \<Rightarrow>
               if pos < length pval_matrix \<and> n < length (pval_matrix ! pos)
               then fill_cells index1 index2 n (Suc pos) cells
                      (pval_matrix[pos := (pval_matrix ! pos)[n := v]])
               else Inl IndexError))"

text \<open>The outer loop over the rows of the filtered CPB table.\<close>

fun fill_pairs ::
  "string list \<Rightarrow> matrix list \<Rightarrow> nat \<Rightarrow> cpb_row list \<Rightarrow> matrix \<Rightarrow> py_error + matrix" where
  "fill_pairs geneList pp_pvalues n [] pval_matrix = Inr pval_matrix"
| "fill_pairs geneList pp_pvalues n (i # rest) pval_matrix =
     (case list_index geneList (gene_id1 i) of
        Inl e \<Rightarrow> Inl e
      | Inr index1 \<Rightarrow>
     (case list_index geneList (gene_id2 i) of
        Inl e \<Rightarrow> Inl e
      | Inr index2 \<Rightarrow>
     (case fill_cells index1 index2 n 0 pp_pvalues pval_matrix of
        Inl e \<Rightarrow> Inl e
      | Inr pval_matrix' \<Rightarrow> fill_pairs geneList pp_pvalues (Suc n) rest pval_matrix')))"

text \<open>
  From \<^verbatim>\<open>np.ones\<close> to \<^verbatim>\<open>-np.log10\<close>: the matrix handed to the biclustering routine.
  (\<^verbatim>\<open>pair_genes\<close> is collected by the source and never read; it is left out.)
\<close>

definition extract_pvalues :: "anndata \<Rightarrow> threshold \<Rightarrow> cpb_row list \<Rightarrow> py_error + matrix" where
  "extract_pvalues adata_st distance_threshold cpb_results =
     (let pval_matrix = replicate (n_obs adata_st) (replicate (length cpb_results) (Num 1)) in
      bindE (lookup_uns (uns adata_st) (pp_key distance_threshold)) (\<lambda>v.
      bindE (as_pvalues v) (\<lambda>pp_pvalues.
      bindE (lookup_uns (uns adata_st) ''geneList'') (\<lambda>g.
      bindE (as_gene_list g) (\<lambda>geneList.
      bindE (fill_pairs geneList pp_pvalues 0 cpb_results pval_matrix) (\<lambda>filled.
        Inr (map (map neglog10) filled)))))))"

text \<open>\<^verbatim>\<open>f"({x.split(',')[0]},{x.split(',')[1][1:]})"\<close>\<close>

definition format_pair :: "string \<Rightarrow> py_error + string" where
  "format_pair x =
     bindE (py_get (split_on CHR '','' x) 0) (\<lambda>a.
     bindE (py_get (split_on CHR '','' x) 1) (\<lambda>b.
       Inr (''('' @ a @ '','' @ drop 1 b @ '')'')))"

text \<open>
  \<^verbatim>\<open>np.mean(pval_matrix[bicluster.rows][:, bicluster.cols])\<close>: NaN when an entry is NaN or
  when there is no entry.
\<close>

definition submatrix_mean :: "matrix \<Rightarrow> nat list \<Rightarrow> nat list \<Rightarrow> pyfloat" where
  "submatrix_mean m rs cs =
     (let entries = concat (map (\<lambda>r. map (\<lambda>c. m ! r ! c) cs) rs) in
      if entries = [] \<or> NaN \<in> set entries then NaN
      else Num (sum_list (map num_of entries) / real (length entries)))"

text \<open>
  The body of the loop over \<^verbatim>\<open>biclustering.biclusters\<close> for one admitted bicluster.
  \<^verbatim>\<open>list(set(...))\<close> yields the genes in an order Python does not fix; the model takes
  the order of \<^const>\<open>remdups\<close>.
\<close>

definition bicluster_row ::
  "'s helpers \<Rightarrow> matrix \<Rightarrow> matrix \<Rightarrow> string list \<Rightarrow> string list \<Rightarrow> nat list \<Rightarrow>
   real list \<Rightarrow> real list \<Rightarrow> bicluster \<Rightarrow> py_error + bic_row" where
  "bicluster_row H pval_matrix pval_matrix_scaled uids gene_pairs col_range
       col_log_combs row_log_combs b =
     bindE (mapM (py_get gene_pairs) (cols b)) (\<lambda>bicluster_pairs.
       let bicluster_genes =
             remdups (concat (map (\<lambda>pair. split_on CHR '','' (py_strip ''()'' pair))
               bicluster_pairs));
           rows' = expand_bicluster_rows H pval_matrix (rows b) (cols b)
       in
       bindE (mapM (py_get uids) rows') (\<lambda>bicluster_cells.
         let calculated_score =
               get_sprawl_score H rows' pval_matrix_scaled col_range col_log_combs row_log_combs
         in
         Inr \<lparr>bic_gene_pairs = join '', '' bicluster_pairs,
              bic_genes = join '','' bicluster_genes,
              bic_uIDs = join '','' bicluster_cells,
              bic_cells = length bicluster_cells,
              bic_combined = 0,
              bic_pre_cell_expansion = score b,
              bic_post_cell_expansion = calculated_score,
              bic_instant_average = float_str H (submatrix_mean pval_matrix rows' (cols b)),
              bic_instant_score = float_str H (Num calculated_score)\<rparr>))"

text \<open>The table \<^verbatim>\<open>df_results\<close> before expansion: one row per bicluster with more than two columns.\<close>

definition initial_rows ::
  "'s helpers \<Rightarrow> matrix \<Rightarrow> matrix \<Rightarrow> string list \<Rightarrow> string list \<Rightarrow> nat list \<Rightarrow>
   real list \<Rightarrow> real list \<Rightarrow> bicluster list \<Rightarrow> py_error + bic_row list" where
  "initial_rows H pval_matrix pval_matrix_scaled uids gene_pairs col_range
       col_log_combs row_log_combs biclusters =
     mapM (bicluster_row H pval_matrix pval_matrix_scaled uids gene_pairs col_range
             col_log_combs row_log_combs)
       (filter (\<lambda>b. 2 < length (cols b)) biclusters)"

text \<open>
  The \<^verbatim>\<open>while True\<close> loop: \<open>step\<close> is one call of \<^verbatim>\<open>_expand_bicluster\<close> on the table and
  \<^verbatim>\<open>score_issues\<close>.  A loop that never breaks has the value \<open>None\<close>.
\<close>

partial_function (option) expand_loop ::
  "(bic_row list \<times> 's list \<Rightarrow> bic_row list \<times> 's list) \<Rightarrow> bic_row list \<times> 's list \<Rightarrow>
   (bic_row list \<times> 's list) option" where
  "expand_loop step st =
     (if length (fst (step st)) = length (fst st) then Some (step st)
      else expand_loop step (step st))"

text \<open>\<^verbatim>\<open>lambda x: len(x.split(',')) > cell_threshold\<close> on the column uIDs.\<close>

definition keep_row :: "int \<Rightarrow> bic_row \<Rightarrow> bool" where
  "keep_row cell_threshold r =
     (cell_threshold < int (length (split_on CHR '','' (bic_uIDs r))))"

definition expand_step ::
  "'s helpers \<Rightarrow> matrix \<Rightarrow> matrix \<Rightarrow> string list \<Rightarrow> nat list \<Rightarrow> real list \<Rightarrow> real list \<Rightarrow>
   string list \<Rightarrow> bic_row list \<times> 's list \<Rightarrow> bic_row list \<times> 's list" where
  "expand_step H pval_matrix pval_matrix_scaled uids col_range col_log_combs row_log_combs
       gene_pairs st =
     expand_bicluster H (fst st) pval_matrix pval_matrix_scaled uids (snd st) col_range
       col_log_combs row_log_combs gene_pairs"

text \<open>
  Everything between the check for \<^verbatim>\<open>cpb_results\<close> and the expansion loop: the table
  \<^verbatim>\<open>df_results\<close> and the step the loop iterates.
\<close>

definition build_results ::
  "'s helpers \<Rightarrow> anndata \<Rightarrow> threshold \<Rightarrow> int \<Rightarrow> int \<Rightarrow> bool \<Rightarrow> real \<Rightarrow> int \<Rightarrow> uns_value \<Rightarrow>
   py_error + (bic_row list \<times> (bic_row list \<times> 's list \<Rightarrow> bic_row list \<times> 's list))" where
  "build_results H adata_st distance_threshold num_biclusters randomized_searches scale_data
       alpha threads v =
     bindE (as_cpb v) (\<lambda>tbl.
       let cpb_results = filter_cpb alpha tbl in
       bindE (extract_pvalues adata_st distance_threshold cpb_results) (\<lambda>pval_matrix.
       bindE (mapM format_pair (map g1g2 cpb_results)) (\<lambda>gene_pairs.
         let biclusters =
               las_run H num_biclusters randomized_searches scale_data threads pval_matrix;
             pval_matrix_scaled = scale H pval_matrix;
             uids = obs_names adata_st;
             row_log_combs = drop 1 (log_combs H (n_obs adata_st));
             col_log_combs = drop 1 (log_combs H (length cpb_results));
             col_range = [1 ..< length cpb_results + 1]
         in
         bindE (initial_rows H pval_matrix pval_matrix_scaled uids gene_pairs col_range
                  col_log_combs row_log_combs biclusters) (\<lambda>df_results.
           Inr (df_results,
                expand_step H pval_matrix pval_matrix_scaled uids col_range col_log_combs
                  row_log_combs gene_pairs)))))"

definition bicluster_instant ::
  "'s helpers \<Rightarrow> anndata \<Rightarrow> threshold \<Rightarrow> int \<Rightarrow> int \<Rightarrow> bool \<Rightarrow> real \<Rightarrow> int \<Rightarrow> int \<Rightarrow>
   outcome option" where
  "bicluster_instant H adata_st distance_threshold num_biclusters randomized_searches scale_data
       alpha cell_threshold threads =
     (case uns adata_st ''cpb_results'' of
        None \<Rightarrow> Some (Raised (ValueError cpb_missing) adata_st)
      | Some v \<Rightarrow>
          (case build_results H adata_st distance_threshold num_biclusters randomized_searches
                  scale_data alpha threads v of
             Inl e \<Rightarrow> Some (Raised e adata_st)
           | Inr (df_results, step) \<Rightarrow>
               (case expand_loop step (df_results, []) of
                  None \<Rightarrow> None
                | Some (expanded, score_issues) \<Rightarrow>
                    Some (Returned (adata_st\<lparr>uns := (uns adata_st)
                      (''instant_biclustering'' \<mapsto>
                         BiclusterTable (filter (keep_row cell_threshold) expanded))\<rparr>)))))"

section \<open>run\_instant\<close>

text \<open>
  The file system maps a file name to the data container stored under it; the trace lists
  what the function does to the outside world, in order.  The InSTAnT object is external:
  \<^verbatim>\<open>new_instant\<close> is its constructor and \<^verbatim>\<open>call_instant\<close> one method call, which may
  raise and may rewrite files.
\<close>

datatype instant_call =
    Load_preprocessed_data string
  | Run_ProximalPairs3D_slice threshold int
  | Run_ProximalPairs3D threshold int
  | Run_ProximalPairs threshold int
  | Run_GlobalColocalization bool real
  | Run_fsm int real

datatype event =
    Write_h5ad string
  | Instant_call instant_call
  | Read_h5ad string
  | Rm string

record world =
  files :: "string \<rightharpoonup> anndata"
  trace :: "event list"

record 'o instant_lib =
  new_instant :: "threshold \<Rightarrow> int \<Rightarrow> 'o"
  call_instant ::
    "instant_call \<Rightarrow> 'o \<Rightarrow> (string \<rightharpoonup> anndata) \<Rightarrow> py_error + 'o \<times> (string \<rightharpoonup> anndata)"

definition write_h5ad :: "anndata \<Rightarrow> string \<Rightarrow> world \<Rightarrow> world" where
  "write_h5ad adata filename w =
     \<lparr>files = (files w)(filename \<mapsto> adata), trace = trace w @ [Write_h5ad filename]\<rparr>"

definition read_h5ad :: "string \<Rightarrow> world \<Rightarrow> (py_error + anndata) \<times> world" where
  "read_h5ad filename w =
     ((case files w filename of
         None \<Rightarrow> Inl (FileNotFoundError filename)
       | Some adata \<Rightarrow> Inr adata),
      w\<lparr>trace := trace w @ [Read_h5ad filename]\<rparr>)"

text \<open>\<^verbatim>\<open>subprocess.run(["rm", filename])\<close>: the exit status is not looked at.\<close>

definition rm :: "string \<Rightarrow> world \<Rightarrow> world" where
  "rm filename w =
     \<lparr>files = (files w)(filename := None), trace = trace w @ [Rm filename]\<rparr>"

definition call :: "'o instant_lib \<Rightarrow> instant_call \<Rightarrow> 'o \<Rightarrow> world \<Rightarrow> (py_error + 'o) \<times> world" where
  "call lib c obj w =
     (case call_instant lib c obj (files w) of
        Inl e \<Rightarrow> (Inl e, w\<lparr>trace := trace w @ [Instant_call c]\<rparr>)
      | Inr (obj', fs) \<Rightarrow> (Inr obj', \<lparr>files = fs, trace = trace w @ [Instant_call c]\<rparr>))"

text \<open>\<^verbatim>\<open>f".cellSP_st_{random.randint(0,int(1e7))}.h5ad"\<close>, for the number drawn.\<close>

definition temp_name :: "nat \<Rightarrow> string" where
  "temp_name drawn = ''.cellSP_st_'' @ str_nat drawn @ ''.h5ad''"

text \<open>The choice among the three proximal-pairs tests.\<close>

definition pp_call :: "anndata \<Rightarrow> threshold \<Rightarrow> bool \<Rightarrow> py_error + instant_call" where
  "pp_call adata_st distance_threshold is_sliced =
     bindE (lookup_uns (uns adata_st) ''transcripts'') (\<lambda>v.
     bindE (as_transcripts v) (\<lambda>columns.
       Inr (if ''absZ'' \<in> set columns
            then (if is_sliced then Run_ProximalPairs3D_slice distance_threshold 20
                  else Run_ProximalPairs3D distance_threshold 20)
            else Run_ProximalPairs distance_threshold 20)))"

text \<open>
  \<open>drawn\<close> is the number \<^verbatim>\<open>random.randint\<close> returns when it is asked.  The result is the
  exception or the object returned, with the world the call leaves behind.
\<close>

definition run_instant ::
  "'o instant_lib \<Rightarrow> nat \<Rightarrow> anndata \<Rightarrow> threshold \<Rightarrow> int \<Rightarrow> int \<Rightarrow> real \<Rightarrow> real \<Rightarrow>
   string option \<Rightarrow> bool \<Rightarrow> bool \<Rightarrow> world \<Rightarrow> (py_error + anndata) \<times> world" where
  "run_instant lib drawn adata_st distance_threshold threads n_vertices alpha_cpb alpha_fsm
       filename remove_file is_sliced w0 =
     (let (filename', w1) =
            (case filename of
               None \<Rightarrow> (temp_name drawn, write_h5ad adata_st (temp_name drawn) w0)
             | Some f \<Rightarrow> (f, w0));
          obj = new_instant lib distance_threshold threads
      in
      case call lib (Load_preprocessed_data filename') obj w1 of
        (Inl e, w2) \<Rightarrow> (Inl e, w2)
      | (Inr obj2, w2) \<Rightarrow>
      (case pp_call adata_st distance_threshold is_sliced of
        Inl e \<Rightarrow> (Inl e, w2)
      | Inr pp \<Rightarrow>
      (case call lib pp obj2 w2 of
        (Inl e, w3) \<Rightarrow> (Inl e, w3)
      | (Inr obj3, w3) \<Rightarrow>
      (case call lib (Run_GlobalColocalization True alpha_cpb) obj3 w3 of
        (Inl e, w4) \<Rightarrow> (Inl e, w4)
      | (Inr obj4, w4) \<Rightarrow>
      (case call lib (Run_fsm n_vertices alpha_fsm) obj4 w4 of
        (Inl e, w5) \<Rightarrow> (Inl e, w5)
      | (Inr obj5, w5) \<Rightarrow>
      (case read_h5ad filename' w5 of
        (Inl e, w6) \<Rightarrow> (Inl e, w6)
      | (Inr adata_read, w6) \<Rightarrow>
          (Inr adata_read, if remove_file then rm filename' w6 else w6)))))))"

definition is_write :: "event \<Rightarrow> bool" where
  "is_write ev = (case ev of Write_h5ad f \<Rightarrow> True | _ \<Rightarrow> False)"

definition is_rm :: "event \<Rightarrow> bool" where
  "is_rm ev = (case ev of Rm f \<Rightarrow> True | _ \<Rightarrow> False)"

section \<open>impute\<close>

text \<open>
  \<^verbatim>\<open>impute\<close> mutates the object it is given and returns it, so objects live in a store and
  are passed by reference.  \<open>fit_transform n_jobs kwargs\<close> stands for
  \<^verbatim>\<open>magic.MAGIC(n_jobs=n_jobs, **kwargs).fit_transform\<close>, which returns a new container.
  Assigning to \<^verbatim>\<open>adata.raw\<close> makes AnnData keep a frozen copy of the current X and
  variables.
\<close>

type_synonym ref = nat

type_synonym store = "ref \<Rightarrow> anndata"

definition freeze :: "anndata \<Rightarrow> raw_data" where
  "freeze a = \<lparr>raw_X = X a, raw_var_names = var_names a\<rparr>"

definition impute ::
  "(int \<Rightarrow> 'k \<Rightarrow> anndata \<Rightarrow> anndata) \<Rightarrow> ref \<Rightarrow> int \<Rightarrow> 'k \<Rightarrow> store \<Rightarrow> ref \<times> store" where
  "impute fit_transform adata n_jobs kwargs s =
     (let X_magic = fit_transform n_jobs kwargs (s adata);
          s1 = s(adata := (s adata)\<lparr>raw := Some (freeze (s adata))\<rparr>);
          s2 = s1(adata := (s1 adata)\<lparr>X := X X_magic\<rparr>)
      in (adata, s2))"

section \<open>Reading the claims\<close>

text \<open>
  The definitions of this section are not part of the program: they say, in the words of
  the specification, what the program is compared with.
\<close>

text \<open>The gene list and the per-cell p-value matrices stored in the container.\<close>

definition the_gene_list :: "anndata \<Rightarrow> string list" where
  "the_gene_list a = (case uns a ''geneList'' of Some (GeneList g) \<Rightarrow> g | _ \<Rightarrow> [])"

definition the_pvalues :: "anndata \<Rightarrow> threshold \<Rightarrow> matrix list" where
  "the_pvalues a distance_threshold =
     (case uns a (pp_key distance_threshold) of Some (PValues p) \<Rightarrow> p | _ \<Rightarrow> [])"

text \<open>The position of a gene name in the gene list.\<close>

definition position_of :: "string list \<Rightarrow> string \<Rightarrow> nat" where
  "position_of geneList x = the (find_index_of geneList x)"

definition gene_positions :: "string list \<Rightarrow> string \<Rightarrow> nat list" where
  "gene_positions geneList vertices =
     map (position_of geneList) (split_on CHR '','' vertices)"


text \<open>
  The cells, in cell order, whose p-value is below \<open>alpha\<close> for every pair of the clique's
  genes (each unordered pair once, the earlier vertex first; NaN is not below \<open>alpha\<close>).
\<close>

definition cells_below_alpha :: "real \<Rightarrow> nat list \<Rightarrow> matrix list \<Rightarrow> nat list" where
  "cells_below_alpha alpha gis pp =
     filter (\<lambda>n. \<forall>q<length gis. \<forall>p<q. fless (pp ! n ! (gis ! p) ! (gis ! q)) alpha)
       [0..<length pp]"

text \<open>The table of cliques with at least five such cells.\<close>

definition fsm_table :: "anndata \<Rightarrow> threshold \<Rightarrow> real \<Rightarrow> clique_row list \<Rightarrow> fsm_row list" where
  "fsm_table a distance_threshold alpha cliques =
     map (\<lambda>c. \<lparr>fsm_genes = Vertices c,
               fsm_cells = length (cells_below_alpha alpha
                 (gene_positions (the_gene_list a) (Vertices c)) (the_pvalues a distance_threshold)),
               fsm_uIDs = join '','' (map ((!) (obs_names a)) (cells_below_alpha alpha
                 (gene_positions (the_gene_list a) (Vertices c)) (the_pvalues a distance_threshold)))\<rparr>)
       (filter (\<lambda>c. 5 \<le> length (cells_below_alpha alpha
                 (gene_positions (the_gene_list a) (Vertices c)) (the_pvalues a distance_threshold)))
          cliques)"

text \<open>The position (i, j) exists in the matrix; the entry there is NaN.\<close>

definition in_range :: "matrix \<Rightarrow> nat \<Rightarrow> nat \<Rightarrow> bool" where
  "in_range cell i j = (i < length cell \<and> j < length (cell ! i))"

definition nan_at :: "matrix \<Rightarrow> nat \<Rightarrow> nat \<Rightarrow> bool" where
  "nan_at cell i j = (in_range cell i j \<and> cell ! i ! j = NaN)"

text \<open>The rows of the stored CPB table that the filter on \<^verbatim>\<open>p_val_cond\<close> keeps.\<close>

definition kept_pairs :: "anndata \<Rightarrow> real \<Rightarrow> cpb_row list" where
  "kept_pairs a alpha =
     (case uns a ''cpb_results'' of Some (CpbTable t) \<Rightarrow> filter_cpb alpha t | _ \<Rightarrow> [])"

text \<open>
  Some stored per-cell matrix holds NaN at the position (index of \<^verbatim>\<open>gene_id1\<close>, index of
  \<^verbatim>\<open>gene_id2\<close>) of a kept gene pair.
\<close>

definition nan_at_kept_pair :: "anndata \<Rightarrow> threshold \<Rightarrow> real \<Rightarrow> bool" where
  "nan_at_kept_pair a distance_threshold alpha =
     (\<exists>i \<in> set (kept_pairs a alpha). \<exists>cell \<in> set (the_pvalues a distance_threshold).
        gene_id1 i \<in> set (the_gene_list a) \<and> gene_id2 i \<in> set (the_gene_list a) \<and>
        nan_at cell (position_of (the_gene_list a) (gene_id1 i))
                    (position_of (the_gene_list a) (gene_id2 i)))"

text \<open>
  The extraction loop cannot raise IndexError or ValueError: the three annotations it reads
  are stored, there are no more per-cell matrices than cells, both genes of every kept pair
  are in the gene list, and every per-cell matrix has an entry at the pair's position.
\<close>

definition extraction_in_range :: "anndata \<Rightarrow> threshold \<Rightarrow> real \<Rightarrow> bool" where
  "extraction_in_range a distance_threshold alpha =
     ((\<exists>t. uns a ''cpb_results'' = Some (CpbTable t)) \<and>
      (\<exists>p. uns a (pp_key distance_threshold) = Some (PValues p)) \<and>
      (\<exists>g. uns a ''geneList'' = Some (GeneList g)) \<and>
      length (the_pvalues a distance_threshold) \<le> n_obs a \<and>
      (\<forall>i \<in> set (kept_pairs a alpha).
         gene_id1 i \<in> set (the_gene_list a) \<and> gene_id2 i \<in> set (the_gene_list a) \<and>
         (\<forall>cell \<in> set (the_pvalues a distance_threshold).
            in_range cell (position_of (the_gene_list a) (gene_id1 i))
                          (position_of (the_gene_list a) (gene_id2 i)))))"

text \<open>
  The exceptions the code after the check for \<^verbatim>\<open>cpb_results\<close> can raise, the assertion
  apart: a missing key, a value of the wrong kind, a gene missing from the gene list, an
  index out of range.
\<close>

definition later_error :: "py_error \<Rightarrow> bool" where
  "later_error e =
     (e = IndexError \<or> e = TypeError \<or> (\<exists>k. e = KeyError k) \<or>
      (\<exists>x. e = ValueError (x @ '' is not in list'')))"

text \<open>
  Call number \<open>k + 1\<close> of the loop's step, started at \<open>st\<close>, is the first that leaves the
  number of rows of the table as it was.
\<close>

definition rows_unchanged ::
  "(bic_row list \<times> 's list \<Rightarrow> bic_row list \<times> 's list) \<Rightarrow> bic_row list \<times> 's list \<Rightarrow> nat \<Rightarrow> bool" where
  "rows_unchanged step st k =
     (length (fst ((step ^^ Suc k) st)) = length (fst ((step ^^ k) st)))"

definition first_unchanged ::
  "(bic_row list \<times> 's list \<Rightarrow> bic_row list \<times> 's list) \<Rightarrow> bic_row list \<times> 's list \<Rightarrow> nat \<Rightarrow> bool" where
  "first_unchanged step st k =
     (rows_unchanged step st k \<and> (\<forall>i<k. \<not> rows_unchanged step st i))"

section \<open>Example inputs\<close>

text \<open>
  A container with six cells and three genes, an InSTAnT object that leaves the files
  as they are, and helpers that report two fixed biclusters, expand nothing, score
  everything 0 and print every float as 0.0.  Five of the six cells have small p-values
  for every gene pair read below.
\<close>

definition idle_instant :: "unit instant_lib" where
  "idle_instant =
     \<lparr>new_instant = (\<lambda>distance_threshold threads. ()),
      call_instant = (\<lambda>c obj fs. Inr (obj, fs))\<rparr>"

definition plain_helpers :: "unit helpers" where
  "plain_helpers =
     \<lparr>las_run = (\<lambda>num_biclusters randomized_searches scale_data threads m.
         [\<lparr>rows = [0, 1], cols = [0, 1, 2], score = 2\<rparr>,
          \<lparr>rows = [3], cols = [0, 1], score = 1\<rparr>]),
      scale = (\<lambda>m. m),
      log_combs = (\<lambda>n. replicate (Suc n) 0),
      expand_bicluster_rows = (\<lambda>m rs cs. rs),
      get_sprawl_score = (\<lambda>rs m col_range col_log_combs row_log_combs. 0),
      expand_bicluster = (\<lambda>df m ms uids score_issues col_range col_log_combs row_log_combs
         gene_pairs. (df, score_issues)),
      float_str = (\<lambda>x. ''0.0'')\<rparr>"

definition cell_near :: matrix where
  "cell_near =
     map (map Num) [[1, 1/10000, 1/10000], [1/10000, 1, 1/10000], [1/2, 1/10000, 1]]"

definition cell_far :: matrix where
  "cell_far = map (map Num) [[1, 1, 1], [1, 1, 1], [1, 1, 1]]"

definition cliques_ex :: "clique_row list" where
  "cliques_ex = [\<lparr>Vertices = ''A,B,C''\<rparr>, \<lparr>Vertices = ''C,A''\<rparr>]"

definition cpb_ex :: "cpb_row list" where
  "cpb_ex =
     [\<lparr>g1g2 = ''A, B'', gene_id1 = ''A'', gene_id2 = ''B'', p_val_cond = 0\<rparr>,
      \<lparr>g1g2 = ''A, C'', gene_id1 = ''A'', gene_id2 = ''C'', p_val_cond = 1/2\<rparr>,
      \<lparr>g1g2 = ''C, A'', gene_id1 = ''C'', gene_id2 = ''A'', p_val_cond = 1/2000\<rparr>,
      \<lparr>g1g2 = ''B, C'', gene_id1 = ''B'', gene_id2 = ''C'', p_val_cond = 1/1000\<rparr>]"

definition adata_ex :: anndata where
  "adata_ex =
     \<lparr>X = map (map Num) [[3, 0, 1], [2, 1, 0], [0, 0, 4], [1, 1, 1], [5, 2, 0], [0, 3, 3]],
      obs_names = [''c0'', ''c1'', ''c2'', ''c3'', ''c4'', ''c5''],
      var_names = [''A'', ''B'', ''C''],
      uns = [''transcripts'' \<mapsto> Transcripts [''x'', ''y'', ''gene'', ''uID''],
             ''geneList'' \<mapsto> GeneList [''A'', ''B'', ''C''],
             ''pp_test_d4_pvalues'' \<mapsto>
                PValues [cell_near, cell_near, cell_far, cell_near, cell_near, cell_near],
             ''nV3_cliques'' \<mapsto> CliqueTable cliques_ex,
             ''cpb_results'' \<mapsto> CpbTable cpb_ex],
      raw = None\<rparr>"

text \<open>The same container with NaN at (A, B) in the matrix of the second cell.\<close>

definition cell_nan :: matrix where
  "cell_nan =
     [[Num 1, NaN, Num (1/10000)],
      [Num (1/10000), Num 1, Num (1/10000)],
      [Num (1/2), Num (1/10000), Num 1]]"

definition adata_nan :: anndata where
  "adata_nan =
     adata_ex\<lparr>uns := (uns adata_ex)(''pp_test_d4_pvalues'' \<mapsto>
       PValues [cell_near, cell_nan, cell_far, cell_near, cell_near, cell_near])\<rparr>"

text \<open>The row the example helpers lead to.\<close>

definition row_ex :: bic_row where
  "row_ex =
     \<lparr>bic_gene_pairs = ''(A,B), (C,A), (B,C)'', bic_genes = ''A,B,C'',
      bic_uIDs = ''c0,c1'', bic_cells = 2, bic_combined = 0,
      bic_pre_cell_expansion = 2, bic_post_cell_expansion = 0,
      bic_instant_average = ''0.0'', bic_instant_score = ''0.0''\<rparr>"

text \<open>The example container with a comma in the identifier of the first cell.\<close>

definition adata_comma :: anndata where
  "adata_comma = adata_ex\<lparr>obs_names := [''c,0'', ''c1'', ''c2'', ''c3'', ''c4'', ''c5'']\<rparr>"

definition row_comma :: bic_row where
  "row_comma = row_ex\<lparr>bic_uIDs := ''c,0,c1''\<rparr>"

text \<open>The matrix and the pair names the example container leads to at \<open>alpha = 1/1000\<close>.\<close>

definition pval_ex :: matrix where
  "pval_ex =
     map (map (\<lambda>x. Num (- log 10 x)))
       [[1/10000, 1/2, 1/10000], [1/10000, 1/2, 1/10000], [1, 1, 1],
        [1/10000, 1/2, 1/10000], [1/10000, 1/2, 1/10000], [1/10000, 1/2, 1/10000]]"

definition gene_pairs_ex :: "string list" where
  "gene_pairs_ex = [''(A,B)'', ''(C,A)'', ''(B,C)'']"

text \<open>The row for a second bicluster, of the cells \<^verbatim>\<open>c3\<close> and \<^verbatim>\<open>c4\<close>.\<close>

definition row_ex2 :: bic_row where
  "row_ex2 =
     \<lparr>bic_gene_pairs = ''(A,B), (C,A), (B,C)'', bic_genes = ''A,B,C'',
      bic_uIDs = ''c3,c4'', bic_cells = 2, bic_combined = 0,
      bic_pre_cell_expansion = 1, bic_post_cell_expansion = 0,
      bic_instant_average = ''0.0'', bic_instant_score = ''0.0''\<rparr>"

text \<open>
  Modelled from the spec: \<^verbatim>\<open>_expand_bicluster\<close> lives in
  \<^verbatim>\<open>cellSP/characterize/_bicluster.py\<close>, which is not among the sources.  The spec says of
  the expansion that it ``repeatedly grows row/column sets by a score threshold until no
  further growth occurs''.  The step below grows the cell set of the first bicluster of the
  table by the cells of the second and takes the second out of the table; a table with
  fewer than two rows is left as it is.  The biclustering routine of these helpers reports
  two biclusters with three columns each.
\<close>

definition merge_rows :: "bic_row \<Rightarrow> bic_row \<Rightarrow> bic_row" where
  "merge_rows r1 r2 =
     r1\<lparr>bic_uIDs := bic_uIDs r1 @ '','' @ bic_uIDs r2,
        bic_cells := bic_cells r1 + bic_cells r2,
        bic_combined := 1\<rparr>"

fun merge_first_two :: "bic_row list \<times> unit list \<Rightarrow> bic_row list \<times> unit list" where
  "merge_first_two (r1 # r2 # table, score_issues) = (merge_rows r1 r2 # table, score_issues)"
| "merge_first_two ([r1], score_issues) = ([r1], score_issues)"
| "merge_first_two ([], score_issues) = ([], score_issues)"

definition merging_helpers :: "unit helpers" where
  "merging_helpers =
     plain_helpers\<lparr>
       las_run := (\<lambda>num_biclusters randomized_searches scale_data threads m.
         [\<lparr>rows = [0, 1], cols = [0, 1, 2], score = 2\<rparr>,
          \<lparr>rows = [3, 4], cols = [0, 1, 2], score = 1\<rparr>]),
       expand_bicluster :=
         (\<lambda>df m ms uids score_issues col_range col_log_combs row_log_combs gene_pairs.
            merge_first_two (df, score_issues))\<rparr>"

definition merge_step_ex :: "bic_row list \<times> unit list \<Rightarrow> bic_row list \<times> unit list" where
  "merge_step_ex =
     expand_step merging_helpers pval_ex pval_ex (obs_names adata_ex) [1, 2, 3]
       [0, 0, 0] [0, 0, 0, 0, 0, 0] gene_pairs_ex"

section \<open>Basic facts\<close>

lemma bindE_simps [simp]:
  "bindE (Inl e) f = Inl e"
  "bindE (Inr x) f = f x"
  by (simp_all add: bindE_def)

lemma bindE_eq_Inr: "bindE m f = Inr y \<longleftrightarrow> (\<exists>x. m = Inr x \<and> f x = Inr y)"
  by (cases m) simp_all

lemma bindE_eq_Inl: "bindE m f = Inl e \<longleftrightarrow> m = Inl e \<or> (\<exists>x. m = Inr x \<and> f x = Inl e)"
  by (cases m) simp_all

lemma mapM_Inr: "mapM f xs = Inr ys \<longleftrightarrow> list_all2 (\<lambda>x y. f x = Inr y) xs ys"
proof (induction xs arbitrary: ys)
  case Nil
  then show ?case by auto
next
  case (Cons x xs)
  show ?case
    by (cases ys) (auto simp: Cons.IH [symmetric] split: sum.splits)
qed

lemma mapM_Inl: "mapM f xs = Inl e \<Longrightarrow> \<exists>x \<in> set xs. f x = Inl e"
  by (induction xs) (auto split: sum.splits)

lemma find_index_of_Some:
  "find_index_of xs x = Some k \<Longrightarrow> k < length xs \<and> xs ! k = x \<and> (\<forall>j<k. xs ! j \<noteq> x)"
proof (induction xs arbitrary: k)
  case Nil
  then show ?case by simp
next
  case (Cons y ys)
  show ?case
  proof (cases "y = x")
    case True
    with Cons.prems show ?thesis by simp
  next
    case False
    with Cons.prems obtain k' where k': "find_index_of ys x = Some k'" "k = Suc k'"
      by auto
    from Cons.IH [OF k'(1)] False k'(2) show ?thesis
      by (auto simp: nth_Cons split: nat.splits)
  qed
qed

lemma set_combinations2:
  "set (combinations2 xs) = {(xs ! p, xs ! q) | p q. p < q \<and> q < length xs}"
proof (induction xs)
  case Nil
  then show ?case by simp
next
  case (Cons x xs)
  have "{((x # xs) ! p, (x # xs) ! q) | p q. p < q \<and> q < length (x # xs)} =
        Pair x ` set xs \<union> {(xs ! p, xs ! q) | p q. p < q \<and> q < length xs}"
    (is "?L = ?R")
  proof (rule set_eqI, rule iffI)
    fix z assume "z \<in> ?L"
    then obtain p q where z: "z = ((x # xs) ! p, (x # xs) ! q)" "p < q" "q < Suc (length xs)"
      by auto
    then obtain q' where q': "q = Suc q'" by (cases q) auto
    show "z \<in> ?R"
    proof (cases p)
      case 0
      with z q' show ?thesis by auto
    next
      case (Suc p')
      with z q' have "z = (xs ! p', xs ! q')" "p' < q'" "q' < length xs" by auto
      then show ?thesis by blast
    qed
  next
    fix z assume "z \<in> ?R"
    then consider y where "y \<in> set xs" "z = (x, y)"
      | p q where "z = (xs ! p, xs ! q)" "p < q" "q < length xs"
      by auto
    then show "z \<in> ?L"
    proof cases
      case 1
      then obtain k where "k < length xs" "xs ! k = y" by (auto simp: in_set_conv_nth)
      with 1 have "z = ((x # xs) ! 0, (x # xs) ! Suc k)" "0 < Suc k" "Suc k < length (x # xs)"
        by auto
      then show ?thesis by blast
    next
      case 2
      then have "z = ((x # xs) ! Suc p, (x # xs) ! Suc q)" "Suc p < Suc q" "Suc q < length (x # xs)"
        by auto
      then show ?thesis by blast
    qed
  qed
  with Cons.IH show ?case by auto
qed

section \<open>impute: what the call leaves in the store\<close>

text \<open>
  Claim C8.  \<^verbatim>\<open>impute\<close> returns the reference it was given; afterwards the object's X is
  the X of the container MAGIC returned, its raw is the frozen copy of the object as it
  was before (with the old X), the object differs from the old one in X and raw only, and
  no other object of the store has changed.
\<close>

theorem impute_copies_result_back:
  "fst (impute fit_transform adata n_jobs kwargs s) = adata \<and>
   X (snd (impute fit_transform adata n_jobs kwargs s) adata) =
     X (fit_transform n_jobs kwargs (s adata)) \<and>
   raw (snd (impute fit_transform adata n_jobs kwargs s) adata) =
     Some \<lparr>raw_X = X (s adata), raw_var_names = var_names (s adata)\<rparr> \<and>
   (snd (impute fit_transform adata n_jobs kwargs s) adata)
     \<lparr>X := X (s adata), raw := raw (s adata)\<rparr> = s adata \<and>
   (snd (impute fit_transform adata n_jobs kwargs s)) (adata := s adata) = s"
  by (simp add: impute_def freeze_def Let_def)

section \<open>run\_instant: the file written, read and removed\<close>

lemma call_trace:
  "call lib c obj w = (r, w') \<Longrightarrow> trace w' = trace w @ [Instant_call c]"
  by (auto simp: call_def split: sum.splits prod.splits)

lemma read_h5ad_trace:
  "read_h5ad f w = (r, w') \<Longrightarrow>
     trace w' = trace w @ [Read_h5ad f] \<and> files w' = files w \<and>
     (\<forall>a. r = Inr a \<longrightarrow> files w f = Some a)"
  by (auto simp: read_h5ad_def split: option.splits)

text \<open>
  Claim C3, at the input the claim fails on.  When a file name is passed, the call adds no
  write to the trace, whatever the InSTAnT object does: the object loads whatever the file
  held before, and \<^verbatim>\<open>adata_st\<close> is not serialized.
\<close>

theorem run_instant_given_filename_writes_nothing:
  "filter is_write (trace (snd (run_instant lib drawn adata_st distance_threshold threads
      n_vertices alpha_cpb alpha_fsm (Some f) remove_file is_sliced w))) =
   filter is_write (trace w)"
  by (auto simp: run_instant_def Let_def is_write_def rm_def
      dest!: call_trace read_h5ad_trace split: prod.splits sum.splits)

text \<open>
  Claim C4.  Whatever the call does before, it removes nothing (\<open>pre\<close> holds no \<^verbatim>\<open>rm\<close>).
  A call that raises removes nothing at all.  A call that returns ends with the read of
  the file, followed by its removal exactly when \<^verbatim>\<open>remove_file\<close> is true; when it is
  false the file is still there and holds what was read.
\<close>

theorem run_instant_removal:
  assumes "run_instant lib drawn adata_st distance_threshold threads n_vertices alpha_cpb
             alpha_fsm filename remove_file is_sliced w = (r, w')"
  shows "\<exists>pre. filter is_rm pre = [] \<and>
          (case r of
             Inl e \<Rightarrow> trace w' = trace w @ pre
           | Inr adata_read \<Rightarrow>
               trace w' =
                 trace w @ pre @
                   Read_h5ad (case filename of None \<Rightarrow> temp_name drawn | Some f \<Rightarrow> f) #
                   (if remove_file
                    then [Rm (case filename of None \<Rightarrow> temp_name drawn | Some f \<Rightarrow> f)]
                    else []) \<and>
               (\<not> remove_file \<longrightarrow>
                  files w' (case filename of None \<Rightarrow> temp_name drawn | Some f \<Rightarrow> f) =
                    Some adata_read))"
  using assms
  by (cases filename)
    (auto simp: run_instant_def Let_def is_rm_def rm_def write_h5ad_def
      dest!: call_trace read_h5ad_trace split: prod.splits sum.splits if_splits)

text \<open>
  The example with no file name given and \<^verbatim>\<open>remove_file\<close> true: the temporary file is
  written, handed to InSTAnT, read back and removed last.
\<close>

theorem run_instant_removal_witness:
  "run_instant idle_instant 7 adata_ex ''4'' 1 3 (1/1000) (1/1000) None True True
      \<lparr>files = Map.empty, trace = []\<rparr> =
     (Inr adata_ex,
      \<lparr>files = Map.empty,
       trace = [Write_h5ad ''.cellSP_st_7.h5ad'',
                Instant_call (Load_preprocessed_data ''.cellSP_st_7.h5ad''),
                Instant_call (Run_ProximalPairs ''4'' 20),
                Instant_call (Run_GlobalColocalization True (1/1000)),
                Instant_call (Run_fsm 3 (1/1000)),
                Read_h5ad ''.cellSP_st_7.h5ad'',
                Rm ''.cellSP_st_7.h5ad'']\<rparr>) \<and>
   (\<exists>pre. filter is_rm pre = [] \<and>
      [Write_h5ad ''.cellSP_st_7.h5ad'',
       Instant_call (Load_preprocessed_data ''.cellSP_st_7.h5ad''),
       Instant_call (Run_ProximalPairs ''4'' 20),
       Instant_call (Run_GlobalColocalization True (1/1000)),
       Instant_call (Run_fsm 3 (1/1000)),
       Read_h5ad ''.cellSP_st_7.h5ad'',
       Rm ''.cellSP_st_7.h5ad''] =
      pre @ [Read_h5ad ''.cellSP_st_7.h5ad'', Rm ''.cellSP_st_7.h5ad''])"
proof -
  have run: "run_instant idle_instant 7 adata_ex ''4'' 1 3 (1/1000) (1/1000) None True True
      \<lparr>files = Map.empty, trace = []\<rparr> =
     (Inr adata_ex,
      \<lparr>files = Map.empty,
       trace = [Write_h5ad ''.cellSP_st_7.h5ad'',
                Instant_call (Load_preprocessed_data ''.cellSP_st_7.h5ad''),
                Instant_call (Run_ProximalPairs ''4'' 20),
                Instant_call (Run_GlobalColocalization True (1/1000)),
                Instant_call (Run_fsm 3 (1/1000)),
                Read_h5ad ''.cellSP_st_7.h5ad'',
                Rm ''.cellSP_st_7.h5ad'']\<rparr>)"
    by (simp add: run_instant_def idle_instant_def adata_ex_def temp_name_def str_nat.simps
        write_h5ad_def call_def pp_call_def lookup_uns_def as_transcripts_def bindE_def
        read_h5ad_def rm_def)
  from run_instant_removal [OF run] run show ?thesis
    by (simp add: temp_name_def str_nat.simps)
qed

section \<open>More basic facts\<close>

lemma split_on_not_Nil: "split_on c s \<noteq> []"
  by (induction s) (auto split: list.splits)

lemma list_index_Inr: "list_index xs x = Inr k \<longleftrightarrow> find_index_of xs x = Some k"
  by (auto simp: list_index_def split: option.splits)

lemma get_chain_Inr:
  "get_chain cell i j = Inr v \<longleftrightarrow> i < length cell \<and> j < length (cell ! i) \<and> v = cell ! i ! j"
  by (auto simp: get_chain_def py_get_def bindE_eq_Inr)

lemma get_tuple_eq_get_chain: "get_tuple cell i j = get_chain cell i j"
  by (simp add: get_tuple_def get_chain_def py_get_def)

lemma expand_loop_stop:
  "length (fst (step st)) = length (fst st) \<Longrightarrow> expand_loop step st = Some (step st)"
  by (subst expand_loop.simps) simp

lemma expand_loop_go:
  "length (fst (step st)) \<noteq> length (fst st) \<Longrightarrow>
     expand_loop step st = expand_loop step (step st)"
  by (subst expand_loop.simps) simp

section \<open>The example, evaluated\<close>

lemma str_int_3: "str_int 3 = ''3''"
  by (simp add: str_int_def str_nat.simps)

lemma uns_ex:
  "uns adata_ex ''cpb_results'' = Some (CpbTable cpb_ex)"
  "uns adata_ex ''nV3_cliques'' = Some (CliqueTable cliques_ex)"
  "uns adata_ex ''geneList'' = Some (GeneList [''A'', ''B'', ''C''])"
  "uns adata_ex ''pp_test_d4_pvalues'' =
     Some (PValues [cell_near, cell_near, cell_far, cell_near, cell_near, cell_near])"
  "uns adata_ex ''pp_test_d3_pvalues'' = None"
  "obs_names adata_ex = [''c0'', ''c1'', ''c2'', ''c3'', ''c4'', ''c5'']"
  by (simp_all add: adata_ex_def)

lemma filter_ex:
  "filter_cpb (1/1000) cpb_ex =
     [\<lparr>g1g2 = ''A, B'', gene_id1 = ''A'', gene_id2 = ''B'', p_val_cond = 0\<rparr>,
      \<lparr>g1g2 = ''C, A'', gene_id1 = ''C'', gene_id2 = ''A'', p_val_cond = 1/2000\<rparr>,
      \<lparr>g1g2 = ''B, C'', gene_id1 = ''B'', gene_id2 = ''C'', p_val_cond = 1/1000\<rparr>]"
  by (simp add: filter_cpb_def cpb_ex_def)

lemma extract_ex:
  "extract_pvalues adata_ex ''4'' (filter_cpb (1/1000) cpb_ex) = Inr pval_ex"
  by (simp add: filter_ex extract_pvalues_def uns_ex n_obs_def lookup_uns_def pp_key_def
      as_pvalues_def as_gene_list_def list_index_def assert_same_entry_def get_tuple_def
      get_chain_def py_get_def cell_near_def cell_far_def pval_ex_def)

lemma format_ex:
  "mapM format_pair (map g1g2 (filter_cpb (1/1000) cpb_ex)) = Inr gene_pairs_ex"
  by (simp add: filter_ex format_pair_def py_get_def gene_pairs_ex_def)

lemma initial_rows_ex:
  "initial_rows plain_helpers pval_ex pval_ex (obs_names adata_ex) gene_pairs_ex cr clc rlc
     (las_run plain_helpers nb rs sd th pval_ex) = Inr [row_ex]"
  by (simp add: initial_rows_def bicluster_row_def plain_helpers_def
      gene_pairs_ex_def uns_ex py_get_def py_strip_def Let_def row_ex_def)

lemma build_ex:
  "build_results plain_helpers adata_ex ''4'' 100 50000 True (1/1000) 1 (CpbTable cpb_ex) =
     Inr ([row_ex],
          expand_step plain_helpers pval_ex pval_ex (obs_names adata_ex) [1, 2, 3]
            [0, 0, 0] [0, 0, 0, 0, 0, 0] gene_pairs_ex)"
proof -
  have len: "length (filter_cpb (1/1000) cpb_ex) = 3"
    by (simp add: filter_ex)
  have sc: "scale plain_helpers pval_ex = pval_ex"
    by (simp add: plain_helpers_def)
  have lc: "drop 1 (log_combs plain_helpers 3) = [0, 0, 0]"
    "drop 1 (log_combs plain_helpers 6) = [0, 0, 0, 0, 0, 0]"
    by (simp_all add: plain_helpers_def numeral_3_eq_3 eval_nat_numeral)
  have cr: "[1 ..< 3 + 1] = [1, 2, 3::nat]"
    by (simp add: upt_rec)
  have n: "n_obs adata_ex = 6"
    by (simp add: n_obs_def uns_ex)
  show ?thesis
    by (simp only: build_results_def as_cpb_def uns_value.case bindE_simps Let_def extract_ex
        format_ex len sc lc cr n initial_rows_ex)
qed

lemma bicluster_instant_ex:
  "bicluster_instant plain_helpers adata_ex ''4'' 100 50000 True (1/1000) ct 1 =
     Some (Returned (adata_ex\<lparr>uns := (uns adata_ex)(''instant_biclustering'' \<mapsto>
       BiclusterTable (if ct < 2 then [row_ex] else []))\<rparr>))"
proof -
  let ?step = "expand_step plain_helpers pval_ex pval_ex (obs_names adata_ex) [1, 2, 3]
            [0, 0, 0] [0, 0, 0, 0, 0, 0] gene_pairs_ex"
  have "?step ([row_ex], []) = ([row_ex], [])"
    by (simp add: expand_step_def plain_helpers_def)
  then have "expand_loop ?step ([row_ex], []) = Some ([row_ex], [])"
    using expand_loop_stop [of ?step "([row_ex], [])"] by simp
  moreover have "keep_row ct row_ex = (ct < 2)"
    by (simp add: keep_row_def row_ex_def)
  ultimately show ?thesis
    by (simp add: bicluster_instant_def uns_ex build_ex)
qed

section \<open>bicluster\_instant: the exceptions it raises\<close>

lemma assert_same_entry_cases:
  "assert_same_entry cell i j =
     (if in_range cell i j
      then (if cell ! i ! j = NaN then Inl AssertionError else Inr ())
      else Inl IndexError)"
proof (cases "in_range cell i j")
  case True
  then have "get_tuple cell i j = Inr (cell ! i ! j)" "get_chain cell i j = Inr (cell ! i ! j)"
    by (simp_all add: get_tuple_eq_get_chain get_chain_def py_get_def in_range_def)
  with True show ?thesis
    by (cases "cell ! i ! j") (simp_all add: assert_same_entry_def)
next
  case False
  then have "get_tuple cell i j = Inl IndexError"
    by (auto simp: get_tuple_def in_range_def)
  with False show ?thesis
    by (simp add: assert_same_entry_def)
qed

lemma get_chain_in_range:
  "in_range cell i j \<Longrightarrow> get_chain cell i j = Inr (cell ! i ! j)"
  by (simp add: get_chain_def py_get_def in_range_def)

lemma get_chain_error: "get_chain cell i j = Inl e \<Longrightarrow> e = IndexError"
  by (auto simp: get_chain_def py_get_def bindE_eq_Inl split: if_splits)

lemma fill_cells_error:
  "fill_cells index1 index2 n pos cells pm = Inl e \<Longrightarrow> e = IndexError \<or> e = AssertionError"
proof (induction cells arbitrary: pos pm)
  case Nil
  then show ?case by simp
next
  case (Cons cell cells)
  then show ?case
    by (auto simp: assert_same_entry_cases split: sum.splits if_splits dest: get_chain_error)
qed

lemma list_index_error:
  "list_index xs x = Inl e \<Longrightarrow> e = ValueError (x @ '' is not in list'')"
  by (auto simp: list_index_def split: option.splits)

lemma fill_pairs_error:
  "fill_pairs geneList pp n cpb pm = Inl e \<Longrightarrow> later_error e \<or> e = AssertionError"
proof (induction cpb arbitrary: n pm)
  case Nil
  then show ?case by simp
next
  case (Cons i rest)
  then show ?case
    by (auto simp: later_error_def split: sum.splits
        dest!: list_index_error fill_cells_error)
qed

lemma lookup_uns_error: "lookup_uns u k = Inl e \<Longrightarrow> later_error e"
  by (auto simp: lookup_uns_def later_error_def split: option.splits)

lemma as_error:
  "as_pvalues v = Inl e \<Longrightarrow> later_error e"
  "as_gene_list v = Inl e \<Longrightarrow> later_error e"
  "as_cpb v = Inl e \<Longrightarrow> later_error e"
  by (auto simp: as_pvalues_def as_gene_list_def as_cpb_def later_error_def
      split: uns_value.splits)

lemma extract_pvalues_error:
  "extract_pvalues adata_st dt cpb = Inl e \<Longrightarrow> later_error e \<or> e = AssertionError"
  by (auto simp: extract_pvalues_def Let_def bindE_eq_Inl
      dest: lookup_uns_error as_error fill_pairs_error)

lemma py_get_error: "py_get xs i = Inl e \<Longrightarrow> later_error e"
  by (auto simp: py_get_def later_error_def split: if_splits)

lemma format_pair_error: "format_pair x = Inl e \<Longrightarrow> later_error e"
  by (auto simp: format_pair_def bindE_eq_Inl dest: py_get_error)

lemma bicluster_row_error:
  "bicluster_row H m ms uids gp cr clc rlc b = Inl e \<Longrightarrow> later_error e"
  by (auto simp: bicluster_row_def Let_def bindE_eq_Inl dest!: mapM_Inl dest: py_get_error)

lemma initial_rows_error:
  "initial_rows H m ms uids gp cr clc rlc bs = Inl e \<Longrightarrow> later_error e"
  by (auto simp: initial_rows_def dest!: mapM_Inl dest: bicluster_row_error)

lemma build_results_error:
  "build_results H adata_st dt nb rs sd alpha th v = Inl e \<Longrightarrow>
     later_error e \<or> e = AssertionError"
  by (auto simp: build_results_def Let_def bindE_eq_Inl
      dest!: mapM_Inl dest: as_error extract_pvalues_error format_pair_error initial_rows_error)

lemma later_error_not_cpb_missing: "\<not> later_error (ValueError cpb_missing)"
proof -
  have "last (x @ '' is not in list'') \<noteq> last cpb_missing" for x :: string
    by (simp add: cpb_missing_def)
  then have "cpb_missing \<noteq> x @ '' is not in list''" for x :: string
    by metis
  then show ?thesis
    by (simp add: later_error_def)
qed

lemma later_error_not_assertion: "\<not> later_error AssertionError"
  by (simp add: later_error_def)

lemma bicluster_instant_raised:
  "bicluster_instant H a dt nb rs sd alpha ct th = Some (Raised e a') \<Longrightarrow>
     a' = a \<and> (if uns a ''cpb_results'' = None then e = ValueError cpb_missing
                else later_error e \<or> e = AssertionError)"
  by (auto simp: bicluster_instant_def split: option.splits sum.splits prod.splits
      dest: build_results_error)

text \<open>
  Claim C1, as amended.  \<^verbatim>\<open>bicluster_instant\<close> raises the ValueError ``CPB results not
  found'' exactly when the key \<^verbatim>\<open>cpb_results\<close> is absent from \<^verbatim>\<open>adata_st.uns\<close>; and
  whenever the call raises, that error or any other, \<^verbatim>\<open>adata_st\<close> is left as it was.
\<close>

theorem bicluster_instant_cpb_check:
  "((\<exists>adata'. bicluster_instant H adata_st distance_threshold num_biclusters
        randomized_searches scale_data alpha cell_threshold threads =
          Some (Raised (ValueError cpb_missing) adata')) \<longleftrightarrow>
    uns adata_st ''cpb_results'' = None) \<and>
   (\<forall>e adata'. bicluster_instant H adata_st distance_threshold num_biclusters
        randomized_searches scale_data alpha cell_threshold threads = Some (Raised e adata')
      \<longrightarrow> adata' = adata_st)"
proof (intro conjI iffI allI impI)
  assume "\<exists>adata'. bicluster_instant H adata_st distance_threshold num_biclusters
        randomized_searches scale_data alpha cell_threshold threads =
          Some (Raised (ValueError cpb_missing) adata')"
  then show "uns adata_st ''cpb_results'' = None"
    using later_error_not_cpb_missing by (auto dest!: bicluster_instant_raised split: if_splits)
next
  assume "uns adata_st ''cpb_results'' = None"
  then show "\<exists>adata'. bicluster_instant H adata_st distance_threshold num_biclusters
        randomized_searches scale_data alpha cell_threshold threads =
          Some (Raised (ValueError cpb_missing) adata')"
    by (simp add: bicluster_instant_def)
next
  fix e adata'
  assume "bicluster_instant H adata_st distance_threshold num_biclusters
        randomized_searches scale_data alpha cell_threshold threads = Some (Raised e adata')"
  then show "adata' = adata_st"
    by (auto dest: bicluster_instant_raised)
qed

text \<open>The check of claim C1 at a container with no annotations.\<close>

theorem bicluster_instant_cpb_check_witness:
  "uns (adata_ex\<lparr>uns := Map.empty\<rparr>) ''cpb_results'' = None \<and>
   bicluster_instant plain_helpers (adata_ex\<lparr>uns := Map.empty\<rparr>) ''4'' 100 50000 True
      (1/1000) 5 1 =
     Some (Raised (ValueError cpb_missing) (adata_ex\<lparr>uns := Map.empty\<rparr>))"
proof -
  let ?a = "adata_ex\<lparr>uns := Map.empty\<rparr>"
  have absent: "uns ?a ''cpb_results'' = None"
    by simp
  from bicluster_instant_cpb_check [of plain_helpers ?a "''4''" 100 50000 True "1/1000" 5 1]
    absent
  obtain adata' where
    raised: "bicluster_instant plain_helpers ?a ''4'' 100 50000 True (1/1000) 5 1 =
      Some (Raised (ValueError cpb_missing) adata')"
    by blast
  from bicluster_instant_cpb_check [of plain_helpers ?a "''4''" 100 50000 True "1/1000" 5 1]
    raised
  have "adata' = ?a"
    by blast
  with raised absent show ?thesis
    by simp
qed

text \<open>
  Claim C1 as stated fails: with \<^verbatim>\<open>cpb_results\<close> present, a distance threshold for which
  no p-values are stored makes the call raise KeyError.
\<close>

theorem bicluster_instant_raises_with_cpb_present:
  "bicluster_instant plain_helpers adata_ex ''3'' 100 50000 True (1/1000) 5 1 =
     Some (Raised (KeyError ''pp_test_d3_pvalues'') adata_ex) \<and>
   uns adata_ex ''cpb_results'' \<noteq> None"
  by (simp add: bicluster_instant_def build_results_def uns_ex as_cpb_def
      extract_pvalues_def Let_def lookup_uns_def pp_key_def)

lemma find_index_of_mem: "x \<in> set xs \<Longrightarrow> \<exists>k. find_index_of xs x = Some k"
  by (induction xs) auto

lemma list_index_mem: "x \<in> set xs \<Longrightarrow> list_index xs x = Inr (position_of xs x)"
  using find_index_of_mem [of x xs] by (auto simp: list_index_def position_of_def)

lemma list_index_in_set: "list_index xs x = Inr k \<Longrightarrow> x \<in> set xs \<and> k = position_of xs x"
  by (auto simp: list_index_Inr position_of_def dest: find_index_of_Some)

lemma fill_cells_assertion:
  "fill_cells i1 i2 n pos cells pm = Inl AssertionError \<Longrightarrow> \<exists>cell \<in> set cells. nan_at cell i1 i2"
proof (induction cells arbitrary: pos pm)
  case Nil
  then show ?case by simp
next
  case (Cons cell cells)
  then show ?case
    by (auto simp: assert_same_entry_cases nan_at_def split: sum.splits if_splits
        dest: get_chain_error)
qed

lemma fill_pairs_assertion:
  "fill_pairs gl pp n cpb pm = Inl AssertionError \<Longrightarrow>
     \<exists>i \<in> set cpb. \<exists>cell \<in> set pp. gene_id1 i \<in> set gl \<and> gene_id2 i \<in> set gl \<and>
        nan_at cell (position_of gl (gene_id1 i)) (position_of gl (gene_id2 i))"
proof (induction cpb arbitrary: n pm)
  case Nil
  then show ?case by simp
next
  case (Cons i rest)
  show ?case
  proof (cases "list_index gl (gene_id1 i)")
    case (Inl e)
    with Cons.prems show ?thesis
      by (auto dest: list_index_error)
  next
    case i1: (Inr index1)
    show ?thesis
    proof (cases "list_index gl (gene_id2 i)")
      case (Inl e)
      with Cons.prems i1 show ?thesis
        by (auto dest: list_index_error)
    next
      case i2: (Inr index2)
      show ?thesis
      proof (cases "fill_cells index1 index2 n 0 pp pm")
        case (Inl e)
        with Cons.prems i1 i2 have "fill_cells index1 index2 n 0 pp pm = Inl AssertionError"
          by simp
        then obtain cell where "cell \<in> set pp" "nan_at cell index1 index2"
          by (auto dest: fill_cells_assertion)
        with list_index_in_set [OF i1] list_index_in_set [OF i2] show ?thesis
          by auto
      next
        case (Inr pm')
        with Cons.prems i1 i2 have "fill_pairs gl pp (Suc n) rest pm' = Inl AssertionError"
          by simp
        from Cons.IH [OF this] show ?thesis
          by auto
      qed
    qed
  qed
qed

lemma fill_cells_in_range:
  assumes "\<forall>cell \<in> set cells. in_range cell i1 i2"
    and "pos + length cells \<le> length pm"
    and "\<forall>r<length pm. n < length (pm ! r)"
  shows "(if \<exists>cell \<in> set cells. nan_at cell i1 i2
          then fill_cells i1 i2 n pos cells pm = Inl AssertionError
          else \<exists>pm'. fill_cells i1 i2 n pos cells pm = Inr pm' \<and> length pm' = length pm \<and>
                 (\<forall>r<length pm. length (pm' ! r) = length (pm ! r)))"
  using assms
proof (induction cells arbitrary: pos pm)
  case Nil
  then show ?case by simp
next
  case (Cons cell cells)
  let ?pm = "pm[pos := (pm ! pos)[n := cell ! i1 ! i2]]"
  from Cons.prems have rng: "in_range cell i1 i2" and pos: "pos < length pm"
    and n: "n < length (pm ! pos)"
    by simp_all
  show ?case
  proof (cases "cell ! i1 ! i2 = NaN")
    case True
    with rng show ?thesis
      by (auto simp: assert_same_entry_cases nan_at_def)
  next
    case False
    have step: "fill_cells i1 i2 n pos (cell # cells) pm = fill_cells i1 i2 n (Suc pos) cells ?pm"
      using rng pos n False by (simp add: assert_same_entry_cases get_chain_in_range)
    have len: "length ?pm = length pm"
      by simp
    have rows: "\<forall>r<length pm. length (?pm ! r) = length (pm ! r)"
      using pos by (auto simp: nth_list_update)
    have "(if \<exists>c \<in> set cells. nan_at c i1 i2
           then fill_cells i1 i2 n (Suc pos) cells ?pm = Inl AssertionError
           else \<exists>pm'. fill_cells i1 i2 n (Suc pos) cells ?pm = Inr pm' \<and>
                  length pm' = length ?pm \<and>
                  (\<forall>r<length ?pm. length (pm' ! r) = length (?pm ! r)))"
    proof (rule Cons.IH)
      show "\<forall>cell \<in> set cells. in_range cell i1 i2"
        using Cons.prems(1) by simp
      show "Suc pos + length cells \<le> length ?pm"
        using Cons.prems(2) by simp
      show "\<forall>r<length ?pm. n < length (?pm ! r)"
        using Cons.prems(3) rows by simp
    qed
    moreover have "(\<exists>c \<in> set (cell # cells). nan_at c i1 i2) = (\<exists>c \<in> set cells. nan_at c i1 i2)"
      using False by (simp add: nan_at_def)
    ultimately show ?thesis
      unfolding step using rows by (auto simp: len)
  qed
qed

lemma fill_pairs_in_range:
  assumes "\<forall>i \<in> set cpb. gene_id1 i \<in> set gl \<and> gene_id2 i \<in> set gl \<and>
             (\<forall>cell \<in> set pp.
                in_range cell (position_of gl (gene_id1 i)) (position_of gl (gene_id2 i)))"
    and "length pp \<le> length pm"
    and "\<forall>r<length pm. n + length cpb \<le> length (pm ! r)"
    and "\<exists>i \<in> set cpb. \<exists>cell \<in> set pp.
           nan_at cell (position_of gl (gene_id1 i)) (position_of gl (gene_id2 i))"
  shows "fill_pairs gl pp n cpb pm = Inl AssertionError"
  using assms
proof (induction cpb arbitrary: n pm)
  case Nil
  then show ?case by simp
next
  case (Cons i rest)
  let ?i1 = "position_of gl (gene_id1 i)"
  let ?i2 = "position_of gl (gene_id2 i)"
  from Cons.prems(1) have i1: "list_index gl (gene_id1 i) = Inr ?i1"
    and i2: "list_index gl (gene_id2 i) = Inr ?i2"
    by (simp_all add: list_index_mem)
  have cells: "(if \<exists>cell \<in> set pp. nan_at cell ?i1 ?i2
          then fill_cells ?i1 ?i2 n 0 pp pm = Inl AssertionError
          else \<exists>pm'. fill_cells ?i1 ?i2 n 0 pp pm = Inr pm' \<and> length pm' = length pm \<and>
                 (\<forall>r<length pm. length (pm' ! r) = length (pm ! r)))"
  proof (rule fill_cells_in_range)
    show "\<forall>cell \<in> set pp. in_range cell ?i1 ?i2"
      using Cons.prems(1) by simp
    show "0 + length pp \<le> length pm"
      using Cons.prems(2) by simp
    show "\<forall>r<length pm. n < length (pm ! r)"
      using Cons.prems(3) by fastforce
  qed
  show ?case
  proof (cases "\<exists>cell \<in> set pp. nan_at cell ?i1 ?i2")
    case True
    with cells i1 i2 show ?thesis
      by simp
  next
    case False
    with cells obtain pm' where pm': "fill_cells ?i1 ?i2 n 0 pp pm = Inr pm'"
      "length pm' = length pm" "\<forall>r<length pm. length (pm' ! r) = length (pm ! r)"
      by auto
    have "fill_pairs gl pp (Suc n) rest pm' = Inl AssertionError"
    proof (rule Cons.IH)
      show "\<forall>i \<in> set rest. gene_id1 i \<in> set gl \<and> gene_id2 i \<in> set gl \<and>
             (\<forall>cell \<in> set pp.
                in_range cell (position_of gl (gene_id1 i)) (position_of gl (gene_id2 i)))"
        using Cons.prems(1) by simp
      show "length pp \<le> length pm'"
        using Cons.prems(2) pm'(2) by simp
      show "\<forall>r<length pm'. Suc n + length rest \<le> length (pm' ! r)"
        using Cons.prems(3) pm'(2,3) by simp
      show "\<exists>i \<in> set rest. \<exists>cell \<in> set pp.
           nan_at cell (position_of gl (gene_id1 i)) (position_of gl (gene_id2 i))"
        using Cons.prems(4) False by auto
    qed
    with i1 i2 pm'(1) show ?thesis
      by simp
  qed
qed

lemma build_results_assertion:
  assumes "build_results H a dt nb rs sd alpha th v = Inl AssertionError"
    and "uns a ''cpb_results'' = Some v"
  shows "nan_at_kept_pair a dt alpha"
proof -
  from assms(1) obtain tbl where tbl: "as_cpb v = Inr tbl"
    using later_error_not_assertion
    by (cases "as_cpb v") (auto simp: build_results_def dest: as_error)
  then have v: "v = CpbTable tbl"
    by (auto simp: as_cpb_def split: uns_value.splits)
  have "extract_pvalues a dt (filter_cpb alpha tbl) = Inl AssertionError"
  proof (cases "extract_pvalues a dt (filter_cpb alpha tbl)")
    case (Inl e)
    with assms(1) tbl show ?thesis
      by (simp add: build_results_def Let_def)
  next
    case (Inr pval_matrix)
    with assms(1) tbl have "later_error AssertionError"
      by (auto simp: build_results_def Let_def bindE_eq_Inl
          dest!: mapM_Inl dest: format_pair_error initial_rows_error)
    then show ?thesis
      by (simp add: later_error_not_assertion)
  qed
  then obtain pp gl where pp: "uns a (pp_key dt) = Some (PValues pp)"
    and gl: "uns a ''geneList'' = Some (GeneList gl)"
    and fill: "fill_pairs gl pp 0 (filter_cpb alpha tbl)
        (replicate (n_obs a) (replicate (length (filter_cpb alpha tbl)) (Num 1))) =
          Inl AssertionError"
    by (auto simp: extract_pvalues_def Let_def bindE_eq_Inl lookup_uns_def as_pvalues_def
        as_gene_list_def split: option.splits uns_value.splits)
  from fill_pairs_assertion [OF fill] assms(2) v pp gl show ?thesis
    by (simp add: nan_at_kept_pair_def kept_pairs_def the_pvalues_def the_gene_list_def)
qed

lemma build_results_nan:
  assumes "extraction_in_range a dt alpha" and "nan_at_kept_pair a dt alpha"
    and "uns a ''cpb_results'' = Some v"
  shows "build_results H a dt nb rs sd alpha th v = Inl AssertionError"
proof -
  from assms(1,3) obtain tbl pp gl where v: "v = CpbTable tbl"
    and pp: "uns a (pp_key dt) = Some (PValues pp)"
    and gl: "uns a ''geneList'' = Some (GeneList gl)"
    by (auto simp: extraction_in_range_def)
  have kept: "kept_pairs a alpha = filter_cpb alpha tbl"
    using assms(3) v by (simp add: kept_pairs_def)
  have the_pp: "the_pvalues a dt = pp" and the_gl: "the_gene_list a = gl"
    using pp gl by (simp_all add: the_pvalues_def the_gene_list_def)
  let ?cpb = "filter_cpb alpha tbl"
  let ?pm = "replicate (n_obs a) (replicate (length ?cpb) (Num 1))"
  have "fill_pairs gl pp 0 ?cpb ?pm = Inl AssertionError"
  proof (rule fill_pairs_in_range)
    show "\<forall>i \<in> set ?cpb. gene_id1 i \<in> set gl \<and> gene_id2 i \<in> set gl \<and>
             (\<forall>cell \<in> set pp.
                in_range cell (position_of gl (gene_id1 i)) (position_of gl (gene_id2 i)))"
      using assms(1) unfolding extraction_in_range_def kept the_pp the_gl by blast
    show "length pp \<le> length ?pm"
      using assms(1) unfolding extraction_in_range_def the_pp by simp
    show "\<forall>r<length ?pm. 0 + length ?cpb \<le> length (?pm ! r)"
      by simp
    show "\<exists>i \<in> set ?cpb. \<exists>cell \<in> set pp.
           nan_at cell (position_of gl (gene_id1 i)) (position_of gl (gene_id2 i))"
      using assms(2) unfolding nan_at_kept_pair_def kept the_pp the_gl by blast
  qed
  then have "extract_pvalues a dt ?cpb = Inl AssertionError"
    using pp gl by (simp add: extract_pvalues_def Let_def lookup_uns_def as_pvalues_def
        as_gene_list_def)
  then show ?thesis
    using v by (simp add: build_results_def as_cpb_def Let_def)
qed

text \<open>
  Claim C2, as amended.  The assertion compares the entry at (index1, index2) read as
  \<^verbatim>\<open>cell[index1, index2]\<close> with the same entry read as \<^verbatim>\<open>cell[index1][index2]\<close>; the
  entry at (index2, index1) is not read.  The two reads give the same result on every
  matrix, so the assertion raises AssertionError exactly when the entry at
  (index1, index2) is NaN, and it passes exactly when that entry exists and is a number.
  Accordingly, when \<^verbatim>\<open>bicluster_instant\<close> raises AssertionError, a stored per-cell matrix
  holds NaN at the position of a kept gene pair; and when the extraction loop cannot raise
  IndexError or ValueError, \<^verbatim>\<open>bicluster_instant\<close> raises AssertionError whenever a stored
  per-cell matrix holds NaN at the position of a kept gene pair.
\<close>

theorem bicluster_instant_assertion_fails_on_nan:
  "get_tuple cell index1 index2 = get_chain cell index1 index2 \<and>
   (assert_same_entry cell index1 index2 = Inl AssertionError \<longleftrightarrow>
      nan_at cell index1 index2) \<and>
   (assert_same_entry cell index1 index2 = Inr () \<longleftrightarrow>
      in_range cell index1 index2 \<and> cell ! index1 ! index2 \<noteq> NaN) \<and>
   (bicluster_instant H adata_st distance_threshold num_biclusters randomized_searches scale_data
      alpha cell_threshold threads = Some (Raised AssertionError adata') \<longrightarrow>
    nan_at_kept_pair adata_st distance_threshold alpha) \<and>
   (extraction_in_range adata_st distance_threshold alpha \<and>
    nan_at_kept_pair adata_st distance_threshold alpha \<longrightarrow>
    bicluster_instant H adata_st distance_threshold num_biclusters randomized_searches scale_data
      alpha cell_threshold threads = Some (Raised AssertionError adata_st))"
proof (intro conjI impI)
  show "get_tuple cell index1 index2 = get_chain cell index1 index2"
    by (rule get_tuple_eq_get_chain)
  show "assert_same_entry cell index1 index2 = Inl AssertionError \<longleftrightarrow>
      nan_at cell index1 index2"
    by (simp add: assert_same_entry_cases nan_at_def)
  show "assert_same_entry cell index1 index2 = Inr () \<longleftrightarrow>
      in_range cell index1 index2 \<and> cell ! index1 ! index2 \<noteq> NaN"
    by (simp add: assert_same_entry_cases)
next
  assume "bicluster_instant H adata_st distance_threshold num_biclusters randomized_searches
      scale_data alpha cell_threshold threads = Some (Raised AssertionError adata')"
  then obtain v where "uns adata_st ''cpb_results'' = Some v"
    and "build_results H adata_st distance_threshold num_biclusters randomized_searches
      scale_data alpha threads v = Inl AssertionError"
    by (auto simp: bicluster_instant_def split: option.splits sum.splits prod.splits)
  then show "nan_at_kept_pair adata_st distance_threshold alpha"
    by (auto dest: build_results_assertion)
next
  assume a: "extraction_in_range adata_st distance_threshold alpha \<and>
    nan_at_kept_pair adata_st distance_threshold alpha"
  then obtain v where v: "uns adata_st ''cpb_results'' = Some v"
    by (auto simp: extraction_in_range_def)
  from a v have "build_results H adata_st distance_threshold num_biclusters randomized_searches
      scale_data alpha threads v = Inl AssertionError"
    by (auto intro: build_results_nan)
  with v show "bicluster_instant H adata_st distance_threshold num_biclusters
      randomized_searches scale_data alpha cell_threshold threads =
        Some (Raised AssertionError adata_st)"
    by (simp add: bicluster_instant_def)
qed

lemma uns_nan:
  "uns adata_nan ''cpb_results'' = Some (CpbTable cpb_ex)"
  "uns adata_nan ''geneList'' = Some (GeneList [''A'', ''B'', ''C''])"
  "uns adata_nan ''pp_test_d4_pvalues'' =
     Some (PValues [cell_near, cell_nan, cell_far, cell_near, cell_near, cell_near])"
  by (simp_all add: adata_nan_def adata_ex_def)

lemma positions_ex:
  "position_of [''A'', ''B'', ''C''] ''A'' = 0"
  "position_of [''A'', ''B'', ''C''] ''B'' = 1"
  "position_of [''A'', ''B'', ''C''] ''C'' = 2"
  by (simp_all add: position_of_def)

text \<open>
  The statement of claim C2 at the container with NaN at (A, B) in the second cell: the
  assertion passes on the first cell's matrix, fails on the second, and the call raises
  AssertionError.
\<close>

theorem bicluster_instant_assertion_fails_on_nan_witness:
  "extraction_in_range adata_nan ''4'' (1/1000) \<and>
   nan_at_kept_pair adata_nan ''4'' (1/1000) \<and>
   nan_at cell_nan 0 1 \<and>
   assert_same_entry cell_nan 0 1 = Inl AssertionError \<and>
   in_range cell_near 0 1 \<and> cell_near ! 0 ! 1 = Num (1/10000) \<and>
   assert_same_entry cell_near 0 1 = Inr () \<and>
   bicluster_instant plain_helpers adata_nan ''4'' 100 50000 True (1/1000) 5 1 =
     Some (Raised AssertionError adata_nan)"
proof -
  have kept: "kept_pairs adata_nan (1/1000) =
      [\<lparr>g1g2 = ''A, B'', gene_id1 = ''A'', gene_id2 = ''B'', p_val_cond = 0\<rparr>,
       \<lparr>g1g2 = ''C, A'', gene_id1 = ''C'', gene_id2 = ''A'', p_val_cond = 1/2000\<rparr>,
       \<lparr>g1g2 = ''B, C'', gene_id1 = ''B'', gene_id2 = ''C'', p_val_cond = 1/1000\<rparr>]"
    by (simp add: kept_pairs_def uns_nan filter_cpb_def cpb_ex_def)
  have pp: "the_pvalues adata_nan ''4'' =
      [cell_near, cell_nan, cell_far, cell_near, cell_near, cell_near]"
    by (simp add: the_pvalues_def pp_key_def uns_nan)
  have gl: "the_gene_list adata_nan = [''A'', ''B'', ''C'']"
    by (simp add: the_gene_list_def uns_nan)
  have n: "n_obs adata_nan = 6"
    by (simp add: n_obs_def adata_nan_def adata_ex_def)
  have rng: "extraction_in_range adata_nan ''4'' (1/1000)"
    unfolding extraction_in_range_def kept pp gl n
    by (simp add: uns_nan pp_key_def positions_ex in_range_def cell_near_def cell_nan_def
        cell_far_def)
  have nan: "nan_at cell_nan 0 1"
    by (simp add: nan_at_def in_range_def cell_nan_def)
  have kept_nan: "nan_at_kept_pair adata_nan ''4'' (1/1000)"
    unfolding nan_at_kept_pair_def kept pp gl
    using nan by (simp add: positions_ex)
  have near: "in_range cell_near 0 1" "cell_near ! 0 ! 1 = Num (1/10000)"
    by (simp_all add: in_range_def cell_near_def)
  note c2 = bicluster_instant_assertion_fails_on_nan
    [of _ _ _ plain_helpers adata_nan "''4''" 100 50000 True "1/1000" 5 1]
  from c2 [of cell_nan 0 1] nan have a1: "assert_same_entry cell_nan 0 1 = Inl AssertionError"
    by blast
  from c2 [of cell_near 0 1] near have a2: "assert_same_entry cell_near 0 1 = Inr ()"
    by simp
  from c2 [of cell_nan 0 1] rng kept_nan
  have "bicluster_instant plain_helpers adata_nan ''4'' 100 50000 True (1/1000) 5 1 =
     Some (Raised AssertionError adata_nan)"
    by blast
  with rng kept_nan nan a1 near a2 show ?thesis
    by simp
qed

text \<open>
  Claim C2 as stated fails: the call below reaches the assertion for the pair (C, A) in
  every cell and returns (with the default threshold of five cells no bicluster is kept),
  although the first cell's matrix holds 1/2 at (C, A) and 1/10000 at (A, C).
\<close>

theorem bicluster_instant_passes_asymmetric:
  "bicluster_instant plain_helpers adata_ex ''4'' 100 50000 True (1/1000) 5 1 =
     Some (Returned (adata_ex\<lparr>uns := (uns adata_ex)(''instant_biclustering'' \<mapsto>
       BiclusterTable [])\<rparr>)) \<and>
   the_pvalues adata_ex ''4'' ! 0 = cell_near \<and>
   position_of (the_gene_list adata_ex) ''C'' = 2 \<and>
   position_of (the_gene_list adata_ex) ''A'' = 0 \<and>
   cell_near ! 2 ! 0 = Num (1/2) \<and> cell_near ! 0 ! 2 = Num (1/10000) \<and>
   cell_near ! 2 ! 0 \<noteq> cell_near ! 0 ! 2"
  by (simp add: bicluster_instant_ex the_pvalues_def the_gene_list_def position_of_def
      pp_key_def uns_ex cell_near_def)

section \<open>analyse\_fsm: the table it stores\<close>

lemma gene_indexes_Inr:
  assumes "gene_indexes u vertices = Inr gis"
  shows "\<exists>gl. u ''geneList'' = Some (GeneList gl) \<and> gis = gene_positions gl vertices \<and>
           list_all2 (\<lambda>x k. find_index_of gl x = Some k) (split_on CHR '','' vertices) gis"
proof -
  let ?f = "\<lambda>x. bindE (lookup_uns u ''geneList'') (\<lambda>v.
             bindE (as_gene_list v) (\<lambda>geneList. list_index geneList x))"
  from assms have all2: "list_all2 (\<lambda>x y. ?f x = Inr y) (split_on CHR '','' vertices) gis"
    by (simp add: gene_indexes_def mapM_Inr)
  obtain x xs where sp: "split_on CHR '','' vertices = x # xs"
    using split_on_not_Nil [of "CHR '',''" vertices] by (cases "split_on CHR '','' vertices") auto
  with all2 obtain y where "?f x = Inr y"
    by (auto simp: list_all2_Cons1)
  then obtain gl where gl: "u ''geneList'' = Some (GeneList gl)"
    by (auto simp: bindE_eq_Inr lookup_uns_def as_gene_list_def
        split: option.splits uns_value.splits)
  then have f: "?f z = list_index gl z" for z
    by (simp add: lookup_uns_def as_gene_list_def)
  from all2 have l2: "list_all2 (\<lambda>x k. find_index_of gl x = Some k) (split_on CHR '','' vertices) gis"
    by (simp add: f list_index_Inr)
  then have "gis = map (position_of gl) (split_on CHR '','' vertices)"
    by (induction rule: list_all2_induct) (auto simp: position_of_def)
  with gl l2 show ?thesis
    by (auto simp: gene_positions_def)
qed

lemma cell_passes_Inr:
  assumes "cell_passes alpha gis cell = Inr ok"
  shows "ok = (\<forall>q<length gis. \<forall>p<q. fless (cell ! (gis ! p) ! (gis ! q)) alpha)"
proof -
  from assms obtain vs where
    vs: "list_all2 (\<lambda>ij v. (case ij of (i, j) \<Rightarrow> get_chain cell i j) = Inr v) (combinations2 gis) vs"
    and ok: "ok = list_all (\<lambda>v. fless v alpha) vs"
    by (auto simp: cell_passes_def bindE_eq_Inr mapM_Inr)
  from vs have "vs = map (\<lambda>(i, j). cell ! i ! j) (combinations2 gis)"
    by (induction rule: list_all2_induct) (auto simp: get_chain_Inr)
  with ok have "ok = (\<forall>ij \<in> set (combinations2 gis). fless (cell ! fst ij ! snd ij) alpha)"
    by (auto simp: list_all_iff)
  also have "\<dots> = (\<forall>q<length gis. \<forall>p<q. fless (cell ! (gis ! p) ! (gis ! q)) alpha)"
    unfolding set_combinations2 by auto
  finally show ?thesis .
qed

lemma collect_uids_Inr:
  "collect_uids alpha gis cell_ids n cells = Inr us \<Longrightarrow>
     us = map (\<lambda>k. cell_ids ! (n + k))
       (filter (\<lambda>k. \<forall>q<length gis. \<forall>p<q. fless (cells ! k ! (gis ! p) ! (gis ! q)) alpha)
          [0..<length cells])"
proof (induction cells arbitrary: n us)
  case Nil
  then show ?case by simp
next
  case (Cons cell cells)
  let ?good = "\<lambda>c. \<forall>q<length gis. \<forall>p<q. fless (c ! (gis ! p) ! (gis ! q)) alpha"
  have upt: "[0..<length (cell # cells)] = 0 # map Suc [0..<length cells]"
    by (simp add: upt_conv_Cons map_Suc_upt del: upt_Suc)
  have shift: "map (\<lambda>k. cell_ids ! (n + k))
       (filter (\<lambda>k. ?good ((cell # cells) ! k)) (map Suc [0..<length cells])) =
     map (\<lambda>k. cell_ids ! (Suc n + k)) (filter (\<lambda>k. ?good (cells ! k)) [0..<length cells])"
    by (simp add: filter_map comp_def)
  from Cons.prems obtain ok where ok: "cell_passes alpha gis cell = Inr ok"
    by (auto split: sum.splits)
  then have ok_eq: "ok = ?good cell"
    by (rule cell_passes_Inr)
  show ?case
  proof (cases ok)
    case True
    with Cons.prems ok obtain us' where
      us': "collect_uids alpha gis cell_ids (Suc n) cells = Inr us'"
      "us = cell_ids ! n # us'"
      by (auto simp: py_get_def split: sum.splits if_splits)
    from Cons.IH [OF us'(1)] us'(2) True ok_eq show ?thesis
      unfolding upt by (simp add: shift del: upt_Suc)
  next
    case False
    with Cons.prems ok have "collect_uids alpha gis cell_ids (Suc n) cells = Inr us"
      by simp
    from Cons.IH [OF this] False ok_eq show ?thesis
      unfolding upt by (simp add: shift del: upt_Suc)
  qed
qed

lemma analyse_clique_Inr:
  assumes "analyse_clique a dt alpha c = Inr r"
  shows "r = (if 5 \<le> length (cells_below_alpha alpha
                 (gene_positions (the_gene_list a) (Vertices c)) (the_pvalues a dt))
              then Some \<lparr>fsm_genes = Vertices c,
                 fsm_cells = length (cells_below_alpha alpha
                   (gene_positions (the_gene_list a) (Vertices c)) (the_pvalues a dt)),
                 fsm_uIDs = join '','' (map ((!) (obs_names a)) (cells_below_alpha alpha
                   (gene_positions (the_gene_list a) (Vertices c)) (the_pvalues a dt)))\<rparr>
              else None)"
proof -
  from assms obtain gis v pp uids where
    gis: "gene_indexes (uns a) (Vertices c) = Inr gis"
    and v: "lookup_uns (uns a) (pp_key dt) = Inr v" "as_pvalues v = Inr pp"
    and uids: "collect_uids alpha gis (obs_names a) 0 pp = Inr uids"
    and r: "r = (if 5 \<le> length uids
            then Some \<lparr>fsm_genes = Vertices c, fsm_cells = length uids,
                       fsm_uIDs = join '','' uids\<rparr>
            else None)"
    by (auto simp: analyse_clique_def bindE_eq_Inr)
  from gene_indexes_Inr [OF gis] have gis_eq: "gis = gene_positions (the_gene_list a) (Vertices c)"
    by (auto simp: the_gene_list_def)
  from v have pp_eq: "pp = the_pvalues a dt"
    by (auto simp: the_pvalues_def lookup_uns_def as_pvalues_def
        split: option.splits uns_value.splits)
  from collect_uids_Inr [OF uids]
  have "uids = map ((!) (obs_names a)) (cells_below_alpha alpha gis pp)"
    by (simp add: cells_below_alpha_def)
  with r gis_eq pp_eq show ?thesis
    by simp
qed

lemma analyse_rows:
  "list_all2 (\<lambda>c r. analyse_clique a dt alpha c = Inr r) cs rs \<Longrightarrow>
     List.map_filter id rs = fsm_table a dt alpha cs"
proof (induction rule: list_all2_induct)
  case Nil
  then show ?case by (simp add: fsm_table_def)
next
  case (Cons c cs r rs)
  from analyse_clique_Inr [OF Cons.hyps(1)] Cons.IH show ?case
    by (simp add: fsm_table_def)
qed

text \<open>
  Claim C9.  When \<^verbatim>\<open>analyse_fsm\<close> returns, \<^verbatim>\<open>uns['instant_fsm']\<close> holds one row for each
  of the first \<^verbatim>\<open>top_k\<close> cliques that has at least five cells whose p-values are below
  \<open>alpha\<close> for every pair of the clique's genes, and no other row; the row records the
  number of those cells and their identifiers, joined in cell order.  Nothing else of the
  container changes.
\<close>

theorem analyse_fsm_table:
  assumes "analyse_fsm adata_st top_k n_vertices distance_threshold alpha = Returned adata'"
  shows "\<exists>tbl. uns adata_st (cliques_key n_vertices) = Some (CliqueTable tbl) \<and>
           adata' = adata_st\<lparr>uns := (uns adata_st)(''instant_fsm'' \<mapsto>
             FsmTable (fsm_table adata_st distance_threshold alpha (py_take top_k tbl)))\<rparr>"
proof -
  from assms obtain tbl rs where
    tbl: "bindE (lookup_uns (uns adata_st) (cliques_key n_vertices)) as_cliques = Inr tbl"
    and rs: "mapM (analyse_clique adata_st distance_threshold alpha) (py_take top_k tbl) = Inr rs"
    and a': "adata' = adata_st\<lparr>uns := (uns adata_st)
                 (''instant_fsm'' \<mapsto> FsmTable (List.map_filter id rs))\<rparr>"
    by (auto simp: analyse_fsm_def split: sum.splits)
  from tbl have "uns adata_st (cliques_key n_vertices) = Some (CliqueTable tbl)"
    by (auto simp: bindE_eq_Inr lookup_uns_def as_cliques_def
        split: option.splits uns_value.splits)
  moreover from rs have "List.map_filter id rs =
      fsm_table adata_st distance_threshold alpha (py_take top_k tbl)"
    by (simp add: mapM_Inr analyse_rows)
  ultimately show ?thesis
    using a' by simp
qed


text \<open>The example: of the two cliques, the first has five such cells and the second none.\<close>

lemma gene_indexes_ex:
  "gene_indexes (uns adata_ex) ''A,B,C'' = Inr [0, 1, 2]"
  "gene_indexes (uns adata_ex) ''C,A'' = Inr [2, 0]"
  by (simp_all add: gene_indexes_def uns_ex lookup_uns_def as_gene_list_def list_index_def)

lemma analyse_clique_ex:
  "analyse_clique adata_ex ''4'' (1/100) \<lparr>Vertices = ''A,B,C''\<rparr> =
     Inr (Some \<lparr>fsm_genes = ''A,B,C'', fsm_cells = 5, fsm_uIDs = ''c0,c1,c3,c4,c5''\<rparr>)"
  "analyse_clique adata_ex ''4'' (1/100) \<lparr>Vertices = ''C,A''\<rparr> = Inr None"
  by (simp_all add: analyse_clique_def gene_indexes_ex)
    (simp_all add: uns_ex lookup_uns_def pp_key_def as_pvalues_def cell_passes_def
      get_chain_def py_get_def cell_near_def cell_far_def)

lemma analyse_fsm_ex:
  "analyse_fsm adata_ex 2 3 ''4'' (1/100) =
     Returned (adata_ex\<lparr>uns := (uns adata_ex)(''instant_fsm'' \<mapsto>
       FsmTable [\<lparr>fsm_genes = ''A,B,C'', fsm_cells = 5, fsm_uIDs = ''c0,c1,c3,c4,c5''\<rparr>])\<rparr>)"
  by (simp add: analyse_fsm_def cliques_key_def str_int_3 lookup_uns_def as_cliques_def
      uns_ex cliques_ex_def py_take_def analyse_clique_ex)

text \<open>The call on the example, and the table the claim describes for it.\<close>

theorem analyse_fsm_table_witness:
  "analyse_fsm adata_ex 2 3 ''4'' (1/100) =
     Returned (adata_ex\<lparr>uns := (uns adata_ex)(''instant_fsm'' \<mapsto>
       FsmTable [\<lparr>fsm_genes = ''A,B,C'', fsm_cells = 5, fsm_uIDs = ''c0,c1,c3,c4,c5''\<rparr>])\<rparr>) \<and>
   fsm_table adata_ex ''4'' (1/100) (py_take 2 cliques_ex) =
     [\<lparr>fsm_genes = ''A,B,C'', fsm_cells = 5, fsm_uIDs = ''c0,c1,c3,c4,c5''\<rparr>]"
proof -
  have cl: "uns adata_ex (cliques_key 3) = Some (CliqueTable cliques_ex)"
    by (simp add: uns_ex cliques_key_def str_int_3)
  from analyse_fsm_table [OF analyse_fsm_ex] cl
  have "adata_ex\<lparr>uns := (uns adata_ex)(''instant_fsm'' \<mapsto>
       FsmTable [\<lparr>fsm_genes = ''A,B,C'', fsm_cells = 5, fsm_uIDs = ''c0,c1,c3,c4,c5''\<rparr>])\<rparr> =
     adata_ex\<lparr>uns := (uns adata_ex)(''instant_fsm'' \<mapsto>
       FsmTable (fsm_table adata_ex ''4'' (1/100) (py_take 2 cliques_ex)))\<rparr>"
    by auto
  then have "uns (adata_ex\<lparr>uns := (uns adata_ex)(''instant_fsm'' \<mapsto>
       FsmTable [\<lparr>fsm_genes = ''A,B,C'', fsm_cells = 5, fsm_uIDs = ''c0,c1,c3,c4,c5''\<rparr>])\<rparr>)
         ''instant_fsm'' =
     uns (adata_ex\<lparr>uns := (uns adata_ex)(''instant_fsm'' \<mapsto>
       FsmTable (fsm_table adata_ex ''4'' (1/100) (py_take 2 cliques_ex)))\<rparr>) ''instant_fsm''"
    by (rule arg_cong)
  then have "fsm_table adata_ex ''4'' (1/100) (py_take 2 cliques_ex) =
     [\<lparr>fsm_genes = ''A,B,C'', fsm_cells = 5, fsm_uIDs = ''c0,c1,c3,c4,c5''\<rparr>]"
    by simp
  with analyse_fsm_ex show ?thesis
    by simp
qed

section \<open>bicluster\_instant: the expansion loop\<close>

text \<open>
  The loop alone, for any step.  If it ends, it ends with the result of the first call
  that leaves the number of rows as it was; every call before that one changed the number
  of rows.
\<close>

lemma expand_loop_exit:
  assumes "expand_loop step st = Some r"
  shows "\<exists>k. r = (step ^^ Suc k) st \<and>
           length (fst ((step ^^ Suc k) st)) = length (fst ((step ^^ k) st)) \<and>
           (\<forall>i<k. length (fst ((step ^^ Suc i) st)) \<noteq> length (fst ((step ^^ i) st)))"
proof (rule expand_loop.raw_induct
    [where P = "\<lambda>step st r. \<exists>k. r = (step ^^ Suc k) st \<and>
           length (fst ((step ^^ Suc k) st)) = length (fst ((step ^^ k) st)) \<and>
           (\<forall>i<k. length (fst ((step ^^ Suc i) st)) \<noteq> length (fst ((step ^^ i) st)))"
      and step = step and st = st and y = r])
  show "expand_loop step st = Some r"
    by (rule assms)
next
  fix loop :: "(bic_row list \<times> 'a list \<Rightarrow> bic_row list \<times> 'a list) \<Rightarrow>
      bic_row list \<times> 'a list \<Rightarrow> (bic_row list \<times> 'a list) option"
    and step st r
  assume IH: "\<And>step st r. loop step st = Some r \<Longrightarrow>
      \<exists>k. r = (step ^^ Suc k) st \<and>
           length (fst ((step ^^ Suc k) st)) = length (fst ((step ^^ k) st)) \<and>
           (\<forall>i<k. length (fst ((step ^^ Suc i) st)) \<noteq> length (fst ((step ^^ i) st)))"
    and body: "(if length (fst (step st)) = length (fst st) then Some (step st)
      else loop step (step st)) = Some r"
  show "\<exists>k. r = (step ^^ Suc k) st \<and>
           length (fst ((step ^^ Suc k) st)) = length (fst ((step ^^ k) st)) \<and>
           (\<forall>i<k. length (fst ((step ^^ Suc i) st)) \<noteq> length (fst ((step ^^ i) st)))"
  proof (cases "length (fst (step st)) = length (fst st)")
    case True
    with body have "r = (step ^^ Suc 0) st"
      by simp
    with True show ?thesis
      by (intro exI [of _ 0]) simp
  next
    case False
    with body have "loop step (step st) = Some r"
      by simp
    from IH [OF this] obtain k where k:
      "r = (step ^^ Suc k) (step st)"
      "length (fst ((step ^^ Suc k) (step st))) = length (fst ((step ^^ k) (step st)))"
      "\<forall>i<k. length (fst ((step ^^ Suc i) (step st))) \<noteq> length (fst ((step ^^ i) (step st)))"
      by blast
    have shift: "(step ^^ n) (step st) = (step ^^ Suc n) st" for n
      by (simp add: funpow_swap1)
    have "\<forall>i<Suc k. length (fst ((step ^^ Suc i) st)) \<noteq> length (fst ((step ^^ i) st))"
    proof (intro allI impI)
      fix i assume i: "i < Suc k"
      show "length (fst ((step ^^ Suc i) st)) \<noteq> length (fst ((step ^^ i) st))"
      proof (cases i)
        case 0
        with False show ?thesis by simp
      next
        case (Suc j)
        with i have "j < k" by simp
        with k(3) have "length (fst ((step ^^ Suc j) (step st))) \<noteq>
            length (fst ((step ^^ j) (step st)))"
          by blast
        then have "length (fst ((step ^^ Suc (Suc j)) st)) \<noteq>
            length (fst ((step ^^ Suc j) st))"
          by (simp only: shift simp_thms)
        with Suc show ?thesis
          by simp
      qed
    qed
    moreover from k(1) have "r = (step ^^ Suc (Suc k)) st"
      by (simp only: shift)
    moreover from k(2) have
      "length (fst ((step ^^ Suc (Suc k)) st)) = length (fst ((step ^^ Suc k) st))"
      by (simp only: shift)
    ultimately show ?thesis
      by blast
  qed
qed

text \<open>Conversely, the loop ends at the first call that leaves the number of rows as it was.\<close>

lemma expand_loop_first:
  "first_unchanged step st k \<Longrightarrow> expand_loop step st = Some ((step ^^ Suc k) st)"
proof (induction k arbitrary: st)
  case 0
  then have "length (fst (step st)) = length (fst st)"
    by (simp add: first_unchanged_def rows_unchanged_def)
  then have "expand_loop step st = Some (step st)"
    by (rule expand_loop_stop)
  then show ?case
    by simp
next
  case (Suc k)
  have shift: "(step ^^ n) (step st) = (step ^^ Suc n) st" for n
    by (simp add: funpow_swap1)
  from Suc.prems have "\<not> rows_unchanged step st 0"
    by (simp add: first_unchanged_def)
  then have changed: "length (fst (step st)) \<noteq> length (fst st)"
    by (simp add: rows_unchanged_def)
  have "first_unchanged step (step st) k"
    unfolding first_unchanged_def rows_unchanged_def
  proof (intro conjI allI impI)
    from Suc.prems show "length (fst ((step ^^ Suc k) (step st))) =
        length (fst ((step ^^ k) (step st)))"
      by (simp only: shift first_unchanged_def rows_unchanged_def)
  next
    fix i assume "i < k"
    then have "Suc i < Suc k"
      by simp
    with Suc.prems have "length (fst ((step ^^ Suc (Suc i)) st)) \<noteq>
        length (fst ((step ^^ Suc i) st))"
      unfolding first_unchanged_def rows_unchanged_def by blast
    then show "length (fst ((step ^^ Suc i) (step st))) \<noteq>
        length (fst ((step ^^ i) (step st)))"
      by (simp only: shift simp_thms)
  qed
  from Suc.IH [OF this] have "expand_loop step (step st) = Some ((step ^^ Suc k) (step st))" .
  moreover have "expand_loop step st = expand_loop step (step st)"
    using changed by (rule expand_loop_go)
  moreover have "(step ^^ Suc k) (step st) = (step ^^ Suc (Suc k)) st"
    by (rule shift)
  ultimately show ?case
    by simp
qed

lemma expand_loop_Some:
  "expand_loop step st = Some r \<longleftrightarrow>
     (\<exists>k. first_unchanged step st k \<and> r = (step ^^ Suc k) st)"
proof
  assume "expand_loop step st = Some r"
  from expand_loop_exit [OF this] show "\<exists>k. first_unchanged step st k \<and> r = (step ^^ Suc k) st"
    unfolding first_unchanged_def rows_unchanged_def by blast
next
  assume "\<exists>k. first_unchanged step st k \<and> r = (step ^^ Suc k) st"
  then show "expand_loop step st = Some r"
    by (auto dest: expand_loop_first)
qed

lemma expand_loop_None:
  "expand_loop step st = None \<longleftrightarrow> (\<forall>k. \<not> rows_unchanged step st k)"
proof
  assume none: "expand_loop step st = None"
  show "\<forall>k. \<not> rows_unchanged step st k"
  proof (rule ccontr)
    assume "\<not> (\<forall>k. \<not> rows_unchanged step st k)"
    then have "\<exists>k. rows_unchanged step st k"
      by simp
    then have "\<exists>k. rows_unchanged step st k \<and> (\<forall>i<k. \<not> rows_unchanged step st i)"
      by (subst (asm) exists_least_iff)
    then obtain k where "first_unchanged step st k"
      unfolding first_unchanged_def by blast
    from expand_loop_first [OF this] none show False
      by simp
  qed
next
  assume never: "\<forall>k. \<not> rows_unchanged step st k"
  show "expand_loop step st = None"
  proof (cases "expand_loop step st")
    case None
    then show ?thesis .
  next
    case (Some r)
    then obtain k where "first_unchanged step st k"
      unfolding expand_loop_Some by blast
    with never show ?thesis
      by (simp add: first_unchanged_def)
  qed
qed

lemma build_results_Inr:
  assumes "build_results H a dt nb rs sd alpha th v = Inr (df, step)"
  shows "\<exists>tbl m gp. v = CpbTable tbl \<and>
     extract_pvalues a dt (filter_cpb alpha tbl) = Inr m \<and>
     mapM format_pair (map g1g2 (filter_cpb alpha tbl)) = Inr gp \<and>
     initial_rows H m (scale H m) (obs_names a) gp [1 ..< length (filter_cpb alpha tbl) + 1]
       (drop 1 (log_combs H (length (filter_cpb alpha tbl)))) (drop 1 (log_combs H (n_obs a)))
       (las_run H nb rs sd th m) = Inr df \<and>
     step = expand_step H m (scale H m) (obs_names a) [1 ..< length (filter_cpb alpha tbl) + 1]
       (drop 1 (log_combs H (length (filter_cpb alpha tbl)))) (drop 1 (log_combs H (n_obs a))) gp"
  using assms
  by (auto simp: build_results_def Let_def bindE_eq_Inr as_cpb_def split: uns_value.splits)

text \<open>
  Claim C5, as amended.  Let the code up to the loop succeed with the table
  \<^verbatim>\<open>df_results\<close>, and let \<open>step\<close> be one call of \<^verbatim>\<open>_expand_bicluster\<close>, whatever that helper
  does.  The loop exits exactly at the first call that leaves the number of rows
  unchanged: it ends with the result \<open>r\<close> if and only if \<open>r\<close> is the result of call
  \<open>k + 1\<close>, that call left the number of rows unchanged and each of the \<open>k\<close> calls before it
  changed the number of rows (up or down).  In that case \<^verbatim>\<open>bicluster_instant\<close> returns,
  with the filtered result of call \<open>k + 1\<close> stored.  The loop does not end, and
  \<^verbatim>\<open>bicluster_instant\<close> does not return, exactly when every call changes the number of
  rows.
\<close>

theorem bicluster_instant_expansion_exit:
  assumes "uns adata_st ''cpb_results'' = Some v"
    and "build_results H adata_st distance_threshold num_biclusters randomized_searches
           scale_data alpha threads v = Inr (df_results, step)"
  shows "(\<forall>r. expand_loop step (df_results, []) = Some r \<longleftrightarrow>
            (\<exists>k. first_unchanged step (df_results, []) k \<and>
                 r = (step ^^ Suc k) (df_results, []))) \<and>
     (\<forall>k. first_unchanged step (df_results, []) k \<longrightarrow>
        bicluster_instant H adata_st distance_threshold num_biclusters randomized_searches
            scale_data alpha cell_threshold threads =
          Some (Returned (adata_st\<lparr>uns := (uns adata_st)(''instant_biclustering'' \<mapsto>
            BiclusterTable (filter (keep_row cell_threshold)
              (fst ((step ^^ Suc k) (df_results, [])))))\<rparr>))) \<and>
     (bicluster_instant H adata_st distance_threshold num_biclusters randomized_searches
          scale_data alpha cell_threshold threads = None \<longleftrightarrow>
        (\<forall>k. \<not> rows_unchanged step (df_results, []) k))"
proof (intro conjI allI impI)
  fix r
  show "expand_loop step (df_results, []) = Some r \<longleftrightarrow>
            (\<exists>k. first_unchanged step (df_results, []) k \<and>
                 r = (step ^^ Suc k) (df_results, []))"
    by (rule expand_loop_Some)
next
  fix k
  assume "first_unchanged step (df_results, []) k"
  then have "expand_loop step (df_results, []) = Some ((step ^^ Suc k) (df_results, []))"
    by (rule expand_loop_first)
  then show "bicluster_instant H adata_st distance_threshold num_biclusters randomized_searches
            scale_data alpha cell_threshold threads =
          Some (Returned (adata_st\<lparr>uns := (uns adata_st)(''instant_biclustering'' \<mapsto>
            BiclusterTable (filter (keep_row cell_threshold)
              (fst ((step ^^ Suc k) (df_results, [])))))\<rparr>))"
    by (simp add: bicluster_instant_def assms(1) assms(2) case_prod_beta)
next
  have "bicluster_instant H adata_st distance_threshold num_biclusters randomized_searches
          scale_data alpha cell_threshold threads = None \<longleftrightarrow>
        expand_loop step (df_results, []) = None"
    by (simp add: bicluster_instant_def assms(1) assms(2) split: option.splits prod.splits)
  then show "bicluster_instant H adata_st distance_threshold num_biclusters randomized_searches
          scale_data alpha cell_threshold threads = None \<longleftrightarrow>
        (\<forall>k. \<not> rows_unchanged step (df_results, []) k)"
    by (simp only: expand_loop_None)
qed

text \<open>The example with the merging step, evaluated.\<close>

lemma build_merging:
  "build_results merging_helpers adata_ex ''4'' 100 50000 True (1/1000) 1 (CpbTable cpb_ex) =
     Inr ([row_ex, row_ex2], merge_step_ex)"
proof -
  have len: "length (filter_cpb (1/1000) cpb_ex) = 3"
    by (simp add: filter_ex)
  have sc: "scale merging_helpers pval_ex = pval_ex"
    by (simp add: plain_helpers_def merging_helpers_def)
  have lc: "drop 1 (log_combs merging_helpers 3) = [0, 0, 0]"
    "drop 1 (log_combs merging_helpers 6) = [0, 0, 0, 0, 0, 0]"
    by (simp_all add: plain_helpers_def merging_helpers_def numeral_3_eq_3 eval_nat_numeral)
  have cr: "[1 ..< 3 + 1] = [1, 2, 3::nat]"
    by (simp add: upt_rec)
  have n: "n_obs adata_ex = 6"
    by (simp add: n_obs_def uns_ex)
  have rows: "initial_rows merging_helpers pval_ex pval_ex (obs_names adata_ex) gene_pairs_ex
     [1, 2, 3] [0, 0, 0] [0, 0, 0, 0, 0, 0]
     (las_run merging_helpers 100 50000 True 1 pval_ex) = Inr [row_ex, row_ex2]"
    by (simp add: initial_rows_def bicluster_row_def merging_helpers_def plain_helpers_def
        gene_pairs_ex_def uns_ex py_get_def py_strip_def Let_def row_ex_def row_ex2_def)
  show ?thesis
    by (simp only: build_results_def as_cpb_def uns_value.case bindE_simps Let_def extract_ex
        format_ex len sc lc cr n rows merge_step_ex_def)
qed

lemma merge_step_ex_calls:
  "merge_step_ex ([row_ex, row_ex2], []) = ([merge_rows row_ex row_ex2], [])"
  "merge_step_ex ([merge_rows row_ex row_ex2], []) = ([merge_rows row_ex row_ex2], [])"
  by (simp_all add: merge_step_ex_def expand_step_def merging_helpers_def)

lemma keep_merged: "keep_row 1 (merge_rows row_ex row_ex2)"
  by (simp add: keep_row_def merge_rows_def row_ex_def row_ex2_def)

text \<open>
  The statement of claim C5 at the example with the merging step: the first call changes
  the number of rows, the second does not, and the call returns the result of the second.
\<close>

theorem bicluster_instant_expansion_exit_witness:
  "uns adata_ex ''cpb_results'' = Some (CpbTable cpb_ex) \<and>
   build_results merging_helpers adata_ex ''4'' 100 50000 True (1/1000) 1 (CpbTable cpb_ex) =
     Inr ([row_ex, row_ex2], merge_step_ex) \<and>
   first_unchanged merge_step_ex ([row_ex, row_ex2], []) 1 \<and>
   expand_loop merge_step_ex ([row_ex, row_ex2], []) =
     Some ([merge_rows row_ex row_ex2], []) \<and>
   bicluster_instant merging_helpers adata_ex ''4'' 100 50000 True (1/1000) 1 1 =
     Some (Returned (adata_ex\<lparr>uns := (uns adata_ex)(''instant_biclustering'' \<mapsto>
       BiclusterTable [merge_rows row_ex row_ex2])\<rparr>)) \<and>
   bicluster_instant merging_helpers adata_ex ''4'' 100 50000 True (1/1000) 1 1 \<noteq> None"
proof -
  have two: "(merge_step_ex ^^ Suc 1) ([row_ex, row_ex2], []) = ([merge_rows row_ex row_ex2], [])"
    by (simp add: merge_step_ex_calls)
  have first: "first_unchanged merge_step_ex ([row_ex, row_ex2], []) 1"
    by (simp add: first_unchanged_def rows_unchanged_def merge_step_ex_calls)
  note c5 = bicluster_instant_expansion_exit [OF uns_ex(1) build_merging, of 1]
  from c5 first
  have loop: "expand_loop merge_step_ex ([row_ex, row_ex2], []) =
      Some ((merge_step_ex ^^ Suc 1) ([row_ex, row_ex2], []))"
    by blast
  from c5 first
  have "bicluster_instant merging_helpers adata_ex ''4'' 100 50000 True (1/1000) 1 1 =
     Some (Returned (adata_ex\<lparr>uns := (uns adata_ex)(''instant_biclustering'' \<mapsto>
       BiclusterTable (filter (keep_row 1)
         (fst ((merge_step_ex ^^ Suc 1) ([row_ex, row_ex2], [])))))\<rparr>))"
    by blast
  then have ret: "bicluster_instant merging_helpers adata_ex ''4'' 100 50000 True (1/1000) 1 1 =
     Some (Returned (adata_ex\<lparr>uns := (uns adata_ex)(''instant_biclustering'' \<mapsto>
       BiclusterTable [merge_rows row_ex row_ex2])\<rparr>))"
    by (simp only: two fst_conv filter.simps keep_merged if_True)
  from loop have loop': "expand_loop merge_step_ex ([row_ex, row_ex2], []) =
     Some ([merge_rows row_ex row_ex2], [])"
    by (simp only: two)
  from ret have "bicluster_instant merging_helpers adata_ex ''4'' 100 50000 True (1/1000) 1 1 \<noteq> None"
    by simp
  with uns_ex(1) build_merging first loop' ret show ?thesis
    by (intro conjI)
qed

text \<open>
  Claim C5 as stated fails for a helper that merges biclusters: the first call of the
  loop below is not the final one, and it takes the table from two rows to one.
\<close>

theorem expansion_call_shrinks_table:
  "build_results merging_helpers adata_ex ''4'' 100 50000 True (1/1000) 1 (CpbTable cpb_ex) =
     Inr ([row_ex, row_ex2], merge_step_ex) \<and>
   merge_step_ex ([row_ex, row_ex2], []) = ([merge_rows row_ex row_ex2], []) \<and>
   length (fst (merge_step_ex ([row_ex, row_ex2], []))) < length [row_ex, row_ex2] \<and>
   expand_loop merge_step_ex ([row_ex, row_ex2], []) =
     expand_loop merge_step_ex (merge_step_ex ([row_ex, row_ex2], [])) \<and>
   expand_loop merge_step_ex ([row_ex, row_ex2], []) =
     Some (merge_step_ex (merge_step_ex ([row_ex, row_ex2], [])))"
proof -
  have go: "expand_loop merge_step_ex ([row_ex, row_ex2], []) =
      expand_loop merge_step_ex (merge_step_ex ([row_ex, row_ex2], []))"
    by (rule expand_loop_go) (simp add: merge_step_ex_calls)
  have "expand_loop merge_step_ex (merge_step_ex ([row_ex, row_ex2], [])) =
      Some (merge_step_ex (merge_step_ex ([row_ex, row_ex2], [])))"
    by (rule expand_loop_stop) (simp add: merge_step_ex_calls)
  with go have "expand_loop merge_step_ex ([row_ex, row_ex2], []) =
      Some (merge_step_ex (merge_step_ex ([row_ex, row_ex2], [])))"
    by simp
  with go build_merging show ?thesis
    by (simp add: merge_step_ex_calls)
qed

section \<open>bicluster\_instant: the matrix of p-values\<close>

lemma fill_cells_Inr:
  "fill_cells i1 i2 n pos cells pm = Inr pm' \<Longrightarrow>
     length pm' = length pm \<and>
     (\<forall>r<length pm. length (pm' ! r) = length (pm ! r)) \<and>
     (\<forall>r<length pm. \<forall>c. pm' ! r ! c =
        (if pos \<le> r \<and> r < pos + length cells \<and> c = n
         then cells ! (r - pos) ! i1 ! i2 else pm ! r ! c))"
proof (induction cells arbitrary: pos pm)
  case Nil
  then show ?case by auto
next
  case (Cons cell cells)
  from Cons.prems obtain v where
    v: "get_chain cell i1 i2 = Inr v"
    and pos: "pos < length pm" "n < length (pm ! pos)"
    and rec: "fill_cells i1 i2 n (Suc pos) cells (pm[pos := (pm ! pos)[n := v]]) = Inr pm'"
    by (auto split: sum.splits if_splits)
  from v have v_eq: "v = cell ! i1 ! i2"
    by (simp add: get_chain_Inr)
  let ?pm1 = "pm[pos := (pm ! pos)[n := v]]"
  from Cons.IH [OF rec]
  have len: "length pm' = length pm"
    and rows: "\<forall>r<length pm. length (pm' ! r) = length (?pm1 ! r)"
    and ent: "\<forall>r<length pm. \<forall>c. pm' ! r ! c =
        (if Suc pos \<le> r \<and> r < Suc pos + length cells \<and> c = n
         then cells ! (r - Suc pos) ! i1 ! i2 else ?pm1 ! r ! c)"
    by simp_all
  have "length (?pm1 ! r) = length (pm ! r)" if "r < length pm" for r
    using that by (cases "r = pos") (simp_all add: nth_list_update)
  with rows have rows': "\<forall>r<length pm. length (pm' ! r) = length (pm ! r)"
    by simp
  have ent': "pm' ! r ! c =
        (if pos \<le> r \<and> r < pos + length (cell # cells) \<and> c = n
         then (cell # cells) ! (r - pos) ! i1 ! i2 else pm ! r ! c)"
    if r: "r < length pm" for r c
  proof (cases "r = pos")
    case True
    with ent r pos v_eq show ?thesis
      by (auto simp: nth_list_update)
  next
    case False
    with ent r have "pm' ! r ! c =
        (if Suc pos \<le> r \<and> r < Suc pos + length cells \<and> c = n
         then cells ! (r - Suc pos) ! i1 ! i2 else pm ! r ! c)"
      by (simp add: nth_list_update)
    with False show ?thesis
      by (auto simp: nth_Cons' Suc_diff_Suc not_less_eq_eq)
  qed
  from len rows' ent' show ?case
    by simp
qed

lemma fill_pairs_Inr:
  "fill_pairs gl pp n cpb pm = Inr pm' \<Longrightarrow>
     length pm' = length pm \<and>
     (\<forall>r<length pm. length (pm' ! r) = length (pm ! r)) \<and>
     (\<forall>r<length pm. \<forall>c. pm' ! r ! c =
        (if r < length pp \<and> n \<le> c \<and> c < n + length cpb
         then pp ! r ! position_of gl (gene_id1 (cpb ! (c - n)))
                    ! position_of gl (gene_id2 (cpb ! (c - n)))
         else pm ! r ! c))"
proof (induction cpb arbitrary: n pm)
  case Nil
  then show ?case by auto
next
  case (Cons i rest)
  from Cons.prems obtain index1 index2 pm1 where
    i1: "list_index gl (gene_id1 i) = Inr index1"
    and i2: "list_index gl (gene_id2 i) = Inr index2"
    and cells: "fill_cells index1 index2 n 0 pp pm = Inr pm1"
    and rec: "fill_pairs gl pp (Suc n) rest pm1 = Inr pm'"
    by (auto split: sum.splits)
  from i1 i2 have p: "position_of gl (gene_id1 i) = index1" "position_of gl (gene_id2 i) = index2"
    by (simp_all add: list_index_Inr position_of_def)
  from fill_cells_Inr [OF cells]
  have len1: "length pm1 = length pm"
    and rows1: "\<forall>r<length pm. length (pm1 ! r) = length (pm ! r)"
    and ent1: "\<forall>r<length pm. \<forall>c. pm1 ! r ! c =
        (if r < length pp \<and> c = n then pp ! r ! index1 ! index2 else pm ! r ! c)"
    by simp_all
  from Cons.IH [OF rec] len1
  have len: "length pm' = length pm"
    and rows: "\<forall>r<length pm. length (pm' ! r) = length (pm1 ! r)"
    and ent: "\<forall>r<length pm. \<forall>c. pm' ! r ! c =
        (if r < length pp \<and> Suc n \<le> c \<and> c < Suc n + length rest
         then pp ! r ! position_of gl (gene_id1 (rest ! (c - Suc n)))
                    ! position_of gl (gene_id2 (rest ! (c - Suc n)))
         else pm1 ! r ! c)"
    by simp_all
  have ent': "pm' ! r ! c =
        (if r < length pp \<and> n \<le> c \<and> c < n + length (i # rest)
         then pp ! r ! position_of gl (gene_id1 ((i # rest) ! (c - n)))
                    ! position_of gl (gene_id2 ((i # rest) ! (c - n)))
         else pm ! r ! c)"
    if r: "r < length pm" for r c
  proof (cases "c = n")
    case True
    with ent ent1 r p show ?thesis by simp
  next
    case False
    with ent ent1 r show ?thesis
      by (auto simp: nth_Cons' Suc_diff_Suc not_less_eq_eq)
  qed
  from len rows rows1 ent' show ?case
    by simp
qed

lemma extract_pvalues_Inr:
  assumes "extract_pvalues a dt cpb = Inr m"
  shows "length m = n_obs a \<and>
     (\<forall>r<n_obs a. length (m ! r) = length cpb) \<and>
     (\<forall>r<n_obs a. \<forall>c<length cpb. m ! r ! c =
        (if r < length (the_pvalues a dt)
         then neglog10 (the_pvalues a dt ! r
                 ! position_of (the_gene_list a) (gene_id1 (cpb ! c))
                 ! position_of (the_gene_list a) (gene_id2 (cpb ! c)))
         else neglog10 (Num 1)))"
proof -
  let ?ones = "replicate (n_obs a) (replicate (length cpb) (Num 1))"
  from assms obtain v pp g gl filled where
    v: "lookup_uns (uns a) (pp_key dt) = Inr v" "as_pvalues v = Inr pp"
    and g: "lookup_uns (uns a) ''geneList'' = Inr g" "as_gene_list g = Inr gl"
    and filled: "fill_pairs gl pp 0 cpb ?ones = Inr filled"
    and m: "m = map (map neglog10) filled"
    by (auto simp: extract_pvalues_def Let_def bindE_eq_Inr)
  from v have pp: "the_pvalues a dt = pp"
    by (auto simp: the_pvalues_def lookup_uns_def as_pvalues_def
        split: option.splits uns_value.splits)
  from g have gl: "the_gene_list a = gl"
    by (auto simp: the_gene_list_def lookup_uns_def as_gene_list_def
        split: option.splits uns_value.splits)
  from fill_pairs_Inr [OF filled]
  have len: "length filled = n_obs a"
    and rows: "\<forall>r<n_obs a. length (filled ! r) = length cpb"
    and ent: "\<forall>r<n_obs a. \<forall>c. filled ! r ! c =
        (if r < length pp \<and> c < length cpb
         then pp ! r ! position_of gl (gene_id1 (cpb ! c)) ! position_of gl (gene_id2 (cpb ! c))
         else ?ones ! r ! c)"
    by simp_all
  show ?thesis
    using len rows ent by (simp add: m pp gl)
qed



text \<open>
  Claim C7.  When the extraction succeeds on the CPB rows with \<^verbatim>\<open>p_val_cond <= alpha\<close>, the
  matrix has one row per cell and one column per such CPB row; its entry for cell \<open>r\<close> and
  pair \<open>c\<close> is \<open>- log 10\<close> of the p-value that cell's matrix holds at the positions of
  the pair's two genes (NaN where that p-value is NaN); an entry no cell matrix was read
  for (a cell beyond the stored matrices) is \<open>- log 10 1 = 0\<close>.  This matrix is the argument of the biclustering routine
  \<^verbatim>\<open>las_run\<close>.
\<close>

theorem pval_matrix_shape_and_entries:
  assumes "extract_pvalues adata_st distance_threshold (filter_cpb alpha tbl) = Inr pval_matrix"
  shows "length pval_matrix = n_obs adata_st \<and>
     (\<forall>r<n_obs adata_st.
        length (pval_matrix ! r) = length (filter (\<lambda>i. p_val_cond i \<le> alpha) tbl)) \<and>
     (\<forall>r<n_obs adata_st. \<forall>c<length (filter (\<lambda>i. p_val_cond i \<le> alpha) tbl).
        pval_matrix ! r ! c =
          (if r < length (the_pvalues adata_st distance_threshold)
           then neglog10 (the_pvalues adata_st distance_threshold ! r
                  ! position_of (the_gene_list adata_st)
                      (gene_id1 (filter (\<lambda>i. p_val_cond i \<le> alpha) tbl ! c))
                  ! position_of (the_gene_list adata_st)
                      (gene_id2 (filter (\<lambda>i. p_val_cond i \<le> alpha) tbl ! c)))
           else neglog10 (Num 1))) \<and>
     neglog10 (Num 1) = Num 0 \<and>
     build_results H adata_st distance_threshold num_biclusters randomized_searches scale_data
         alpha threads (CpbTable tbl) =
       bindE (mapM format_pair (map g1g2 (filter_cpb alpha tbl))) (\<lambda>gene_pairs.
       bindE (initial_rows H pval_matrix (scale H pval_matrix) (obs_names adata_st) gene_pairs
                [1 ..< length (filter_cpb alpha tbl) + 1]
                (drop 1 (log_combs H (length (filter_cpb alpha tbl))))
                (drop 1 (log_combs H (n_obs adata_st)))
                (las_run H num_biclusters randomized_searches scale_data threads pval_matrix))
         (\<lambda>df_results.
            Inr (df_results,
                 expand_step H pval_matrix (scale H pval_matrix) (obs_names adata_st)
                   [1 ..< length (filter_cpb alpha tbl) + 1]
                   (drop 1 (log_combs H (length (filter_cpb alpha tbl))))
                   (drop 1 (log_combs H (n_obs adata_st))) gene_pairs)))"
proof -
  from extract_pvalues_Inr [OF assms]
  have "length pval_matrix = n_obs adata_st \<and>
     (\<forall>r<n_obs adata_st.
        length (pval_matrix ! r) = length (filter (\<lambda>i. p_val_cond i \<le> alpha) tbl)) \<and>
     (\<forall>r<n_obs adata_st. \<forall>c<length (filter (\<lambda>i. p_val_cond i \<le> alpha) tbl).
        pval_matrix ! r ! c =
          (if r < length (the_pvalues adata_st distance_threshold)
           then neglog10 (the_pvalues adata_st distance_threshold ! r
                  ! position_of (the_gene_list adata_st)
                      (gene_id1 (filter (\<lambda>i. p_val_cond i \<le> alpha) tbl ! c))
                  ! position_of (the_gene_list adata_st)
                      (gene_id2 (filter (\<lambda>i. p_val_cond i \<le> alpha) tbl ! c)))
           else neglog10 (Num 1)))"
    unfolding filter_cpb_def by blast
  moreover have "neglog10 (Num 1) = Num 0"
    by simp
  moreover have "build_results H adata_st distance_threshold num_biclusters randomized_searches
         scale_data alpha threads (CpbTable tbl) =
       bindE (mapM format_pair (map g1g2 (filter_cpb alpha tbl))) (\<lambda>gene_pairs.
       bindE (initial_rows H pval_matrix (scale H pval_matrix) (obs_names adata_st) gene_pairs
                [1 ..< length (filter_cpb alpha tbl) + 1]
                (drop 1 (log_combs H (length (filter_cpb alpha tbl))))
                (drop 1 (log_combs H (n_obs adata_st)))
                (las_run H num_biclusters randomized_searches scale_data threads pval_matrix))
         (\<lambda>df_results.
            Inr (df_results,
                 expand_step H pval_matrix (scale H pval_matrix) (obs_names adata_st)
                   [1 ..< length (filter_cpb alpha tbl) + 1]
                   (drop 1 (log_combs H (length (filter_cpb alpha tbl))))
                   (drop 1 (log_combs H (n_obs adata_st))) gene_pairs)))"
    by (simp add: build_results_def as_cpb_def Let_def assms)
  ultimately show ?thesis
    by blast
qed

text \<open>The example: six cells, three pairs; the entry of the first cell for the pair (C, A).\<close>

theorem pval_matrix_shape_and_entries_witness:
  "extract_pvalues adata_ex ''4'' (filter_cpb (1/1000) cpb_ex) = Inr pval_ex \<and>
   length pval_ex = n_obs adata_ex \<and>
   length (pval_ex ! 0) = length (filter (\<lambda>i. p_val_cond i \<le> 1/1000) cpb_ex) \<and>
   pval_ex ! 0 ! 1 =
     neglog10 (the_pvalues adata_ex ''4'' ! 0
        ! position_of (the_gene_list adata_ex) ''C''
        ! position_of (the_gene_list adata_ex) ''A'')"
proof -
  note facts = pval_matrix_shape_and_entries [OF extract_ex, of plain_helpers 100 50000 True 1]
  have n: "0 < n_obs adata_ex"
    by (simp add: n_obs_def uns_ex)
  have c: "1 < length (filter (\<lambda>i. p_val_cond i \<le> 1/1000) cpb_ex)"
    "gene_id1 (filter (\<lambda>i. p_val_cond i \<le> 1/1000) cpb_ex ! 1) = ''C''"
    "gene_id2 (filter (\<lambda>i. p_val_cond i \<le> 1/1000) cpb_ex ! 1) = ''A''"
    by (simp_all add: cpb_ex_def)
  have p: "0 < length (the_pvalues adata_ex ''4'')"
    by (simp add: the_pvalues_def pp_key_def uns_ex)
  from facts have "length pval_ex = n_obs adata_ex"
    by blast
  moreover from facts n
  have "length (pval_ex ! 0) = length (filter (\<lambda>i. p_val_cond i \<le> 1/1000) cpb_ex)"
    by blast
  moreover from facts n c(1)
  have "pval_ex ! 0 ! 1 =
     (if 0 < length (the_pvalues adata_ex ''4'')
      then neglog10 (the_pvalues adata_ex ''4'' ! 0
        ! position_of (the_gene_list adata_ex)
            (gene_id1 (filter (\<lambda>i. p_val_cond i \<le> 1/1000) cpb_ex ! 1))
        ! position_of (the_gene_list adata_ex)
            (gene_id2 (filter (\<lambda>i. p_val_cond i \<le> 1/1000) cpb_ex ! 1)))
      else neglog10 (Num 1))"
    by blast
  ultimately show ?thesis
    using extract_ex p by (simp only: c(2) c(3) if_True)
qed


section \<open>Gene indices and the gene list\<close>




section \<open>bicluster\_instant: the rows admitted and the rows kept\<close>

lemma split_on_no_separator: "c \<notin> set x \<Longrightarrow> split_on c x = [x]"
  by (induction x) auto

lemma split_on_append:
  "c \<notin> set x \<Longrightarrow> split_on c (x @ c # rest) = x # split_on c rest"
  by (induction x) auto

lemma split_on_join:
  "xs \<noteq> [] \<Longrightarrow> \<forall>x \<in> set xs. c \<notin> set x \<Longrightarrow> split_on c (join [c] xs) = xs"
proof (induction "[c]" xs rule: join.induct)
  case 1
  then show ?case by simp
next
  case (2 x)
  then show ?case by (simp add: split_on_no_separator)
next
  case (3 x y ys)
  then show ?case by (simp add: split_on_append)
qed

lemma mapM_py_get_subset: "mapM (py_get xs) ks = Inr ys \<Longrightarrow> set ys \<subseteq> set xs"
proof (induction ks arbitrary: ys)
  case Nil
  then show ?case by simp
next
  case (Cons k ks)
  then show ?case
    by (auto simp: py_get_def split: sum.splits if_splits)
qed

lemma bicluster_row_cells:
  assumes "bicluster_row H m ms uids gp cr clc rlc b = Inr row"
  shows "\<exists>cells. set cells \<subseteq> set uids \<and> bic_uIDs row = join '','' cells \<and>
           bic_cells row = length cells"
proof -
  from assms obtain cells where
    "mapM (py_get uids) (expand_bicluster_rows H m (rows b) (cols b)) = Inr cells"
    "bic_uIDs row = join '','' cells" "bic_cells row = length cells"
    by (auto simp: bicluster_row_def Let_def bindE_eq_Inr)
  with mapM_py_get_subset [of uids _ cells] show ?thesis
    by blast
qed

lemma bicluster_row_count:
  assumes "bicluster_row H m ms uids gp cr clc rlc b = Inr row"
    and "\<forall>u \<in> set uids. CHR '','' \<notin> set u" and "bic_cells row \<noteq> 0"
  shows "length (split_on CHR '','' (bic_uIDs row)) = bic_cells row"
proof -
  from bicluster_row_cells [OF assms(1)] obtain cells where
    c: "set cells \<subseteq> set uids" "bic_uIDs row = join '','' cells" "bic_cells row = length cells"
    by blast
  from c(3) assms(3) have "cells \<noteq> []"
    by auto
  moreover from c(1) assms(2) have "\<forall>x \<in> set cells. CHR '','' \<notin> set x"
    by auto
  ultimately have "split_on CHR '','' (join [CHR '',''] cells) = cells"
    by (rule split_on_join)
  with c show ?thesis
    by simp
qed

lemma length_split_on: "length (split_on c s) = Suc (count_list s c)"
  by (induction s) (auto split: list.splits simp: split_on_not_Nil)

lemma count_list_join:
  "xs \<noteq> [] \<Longrightarrow> count_list (join [c] xs) c = length xs - 1 + count_list (concat xs) c"
proof (induction "[c]" xs rule: join.induct)
  case 1
  then show ?case by simp
next
  case (2 x)
  then show ?case by simp
next
  case (3 x y ys)
  then show ?case by simp
qed

lemma length_split_on_join:
  "length (split_on c (join [c] xs)) =
     (if xs = [] then 1 else length xs + count_list (concat xs) c)"
proof (cases "xs = []")
  case True
  then show ?thesis by simp
next
  case False
  then have "0 < length xs"
    by simp
  with False show ?thesis
    by (simp add: length_split_on count_list_join)
qed

lemma list_all2_filter_left:
  "list_all2 P (filter Q xs) ys \<Longrightarrow> list_all2 (\<lambda>x y. Q x \<and> P x y) (filter Q xs) ys"
proof -
  assume a: "list_all2 P (filter Q xs) ys"
  have "Q (filter Q xs ! k)" if "k < length (filter Q xs)" for k
    using nth_mem [OF that] by simp
  with a show ?thesis
    by (auto simp: list_all2_conv_all_nth)
qed

text \<open>
  Claim C10, as amended.  When \<^verbatim>\<open>bicluster_instant\<close> returns, the table built from the
  routine's biclusters has one row for each bicluster with more than two columns, in
  order, and none for the others; and the table stored under \<^verbatim>\<open>instant_biclustering\<close> is
  the expanded table restricted to the rows whose uIDs string has strictly more than
  \<^verbatim>\<open>cell_threshold\<close> comma-separated pieces, that is, one more piece than it has commas.
  For a row the function builds itself from the cells of a bicluster, the number of
  pieces is 1 when the bicluster has no cell, and otherwise the number of cells plus the
  number of commas inside their identifiers: it is the row's cell count whenever the row
  has a cell and no identifier contains a comma.
\<close>

theorem bicluster_instant_admission_and_threshold:
  assumes "bicluster_instant H adata_st distance_threshold num_biclusters randomized_searches
             scale_data alpha cell_threshold threads = Some (Returned adata')"
  shows "\<exists>tbl pval_matrix gene_pairs df_results step expanded score_issues.
     uns adata_st ''cpb_results'' = Some (CpbTable tbl) \<and>
     build_results H adata_st distance_threshold num_biclusters randomized_searches scale_data
       alpha threads (CpbTable tbl) = Inr (df_results, step) \<and>
     extract_pvalues adata_st distance_threshold (filter_cpb alpha tbl) = Inr pval_matrix \<and>
     list_all2
       (\<lambda>b row. 2 < length (cols b) \<and>
          bicluster_row H pval_matrix (scale H pval_matrix) (obs_names adata_st) gene_pairs
            [1 ..< length (filter_cpb alpha tbl) + 1]
            (drop 1 (log_combs H (length (filter_cpb alpha tbl))))
            (drop 1 (log_combs H (n_obs adata_st))) b = Inr row)
       (filter (\<lambda>b. 2 < length (cols b))
          (las_run H num_biclusters randomized_searches scale_data threads pval_matrix))
       df_results \<and>
     ((\<forall>u \<in> set (obs_names adata_st). CHR '','' \<notin> set u) \<longrightarrow>
        (\<forall>row \<in> set df_results. bic_cells row \<noteq> 0 \<longrightarrow>
           length (split_on CHR '','' (bic_uIDs row)) = bic_cells row)) \<and>
     (\<forall>row \<in> set df_results. \<exists>cells.
        set cells \<subseteq> set (obs_names adata_st) \<and>
        bic_uIDs row = join '','' cells \<and> bic_cells row = length cells \<and>
        length (split_on CHR '','' (bic_uIDs row)) =
          (if cells = [] then 1 else length cells + count_list (concat cells) CHR '','')) \<and>
     expand_loop step (df_results, []) = Some (expanded, score_issues) \<and>
     (\<forall>row \<in> set expanded.
        length (split_on CHR '','' (bic_uIDs row)) = 1 + count_list (bic_uIDs row) CHR '','') \<and>
     adata' = adata_st\<lparr>uns := (uns adata_st)(''instant_biclustering'' \<mapsto>
       BiclusterTable
         (filter (\<lambda>row. cell_threshold < int (length (split_on CHR '','' (bic_uIDs row))))
            expanded))\<rparr>"
proof -
  from assms obtain v df_results step expanded score_issues where
    v: "uns adata_st ''cpb_results'' = Some v"
    and build: "build_results H adata_st distance_threshold num_biclusters randomized_searches
       scale_data alpha threads v = Inr (df_results, step)"
    and loop: "expand_loop step (df_results, []) = Some (expanded, score_issues)"
    and res: "adata' = adata_st\<lparr>uns := (uns adata_st)(''instant_biclustering'' \<mapsto>
       BiclusterTable (filter (keep_row cell_threshold) expanded))\<rparr>"
    by (auto simp: bicluster_instant_def split: option.splits sum.splits prod.splits)
  from build_results_Inr [OF build] obtain tbl pval_matrix gene_pairs where
    tbl: "v = CpbTable tbl"
    and extr: "extract_pvalues adata_st distance_threshold (filter_cpb alpha tbl) = Inr pval_matrix"
    and init: "initial_rows H pval_matrix (scale H pval_matrix) (obs_names adata_st) gene_pairs
       [1 ..< length (filter_cpb alpha tbl) + 1]
       (drop 1 (log_combs H (length (filter_cpb alpha tbl))))
       (drop 1 (log_combs H (n_obs adata_st)))
       (las_run H num_biclusters randomized_searches scale_data threads pval_matrix) =
         Inr df_results"
    by blast
  from init have rel: "list_all2
       (\<lambda>b row. 2 < length (cols b) \<and>
          bicluster_row H pval_matrix (scale H pval_matrix) (obs_names adata_st) gene_pairs
            [1 ..< length (filter_cpb alpha tbl) + 1]
            (drop 1 (log_combs H (length (filter_cpb alpha tbl))))
            (drop 1 (log_combs H (n_obs adata_st))) b = Inr row)
       (filter (\<lambda>b. 2 < length (cols b))
          (las_run H num_biclusters randomized_searches scale_data threads pval_matrix))
       df_results"
    unfolding initial_rows_def mapM_Inr by (rule list_all2_filter_left)
  have built: "\<exists>b. bicluster_row H pval_matrix (scale H pval_matrix) (obs_names adata_st)
            gene_pairs [1 ..< length (filter_cpb alpha tbl) + 1]
            (drop 1 (log_combs H (length (filter_cpb alpha tbl))))
            (drop 1 (log_combs H (n_obs adata_st))) b = Inr row"
    if "row \<in> set df_results" for row
  proof -
    from that obtain i where i: "i < length df_results" "df_results ! i = row"
      by (auto simp: in_set_conv_nth)
    from list_all2_nthD2 [OF rel i(1)] i(2) show ?thesis
      by auto
  qed
  have count: "(\<forall>u \<in> set (obs_names adata_st). CHR '','' \<notin> set u) \<longrightarrow>
        (\<forall>row \<in> set df_results. bic_cells row \<noteq> 0 \<longrightarrow>
           length (split_on CHR '','' (bic_uIDs row)) = bic_cells row)"
  proof (intro impI ballI)
    fix row
    assume nc: "\<forall>u \<in> set (obs_names adata_st). CHR '','' \<notin> set u"
      and row: "row \<in> set df_results" and pos: "bic_cells row \<noteq> 0"
    from built [OF row] obtain b where
      "bicluster_row H pval_matrix (scale H pval_matrix) (obs_names adata_st) gene_pairs
            [1 ..< length (filter_cpb alpha tbl) + 1]
            (drop 1 (log_combs H (length (filter_cpb alpha tbl))))
            (drop 1 (log_combs H (n_obs adata_st))) b = Inr row"
      by blast
    from bicluster_row_count [OF this nc pos]
    show "length (split_on CHR '','' (bic_uIDs row)) = bic_cells row" .
  qed
  have pieces: "\<forall>row \<in> set df_results. \<exists>cells.
        set cells \<subseteq> set (obs_names adata_st) \<and>
        bic_uIDs row = join '','' cells \<and> bic_cells row = length cells \<and>
        length (split_on CHR '','' (bic_uIDs row)) =
          (if cells = [] then 1 else length cells + count_list (concat cells) CHR '','')"
  proof
    fix row
    assume "row \<in> set df_results"
    from built [OF this] obtain b where
      "bicluster_row H pval_matrix (scale H pval_matrix) (obs_names adata_st) gene_pairs
            [1 ..< length (filter_cpb alpha tbl) + 1]
            (drop 1 (log_combs H (length (filter_cpb alpha tbl))))
            (drop 1 (log_combs H (n_obs adata_st))) b = Inr row"
      by blast
    from bicluster_row_cells [OF this] obtain cells where
      c: "set cells \<subseteq> set (obs_names adata_st)" "bic_uIDs row = join '','' cells"
        "bic_cells row = length cells"
      by blast
    have "length (split_on CHR '','' (join [CHR '',''] cells)) =
          (if cells = [] then 1 else length cells + count_list (concat cells) CHR '','')"
      by (rule length_split_on_join)
    with c show "\<exists>cells.
        set cells \<subseteq> set (obs_names adata_st) \<and>
        bic_uIDs row = join '','' cells \<and> bic_cells row = length cells \<and>
        length (split_on CHR '','' (bic_uIDs row)) =
          (if cells = [] then 1 else length cells + count_list (concat cells) CHR '','')"
      by auto
  qed
  have commas: "\<forall>row \<in> set expanded.
        length (split_on CHR '','' (bic_uIDs row)) = 1 + count_list (bic_uIDs row) CHR '',''"
    by (simp add: length_split_on)
  note rel count pieces commas
  moreover have "keep_row cell_threshold =
      (\<lambda>row. cell_threshold < int (length (split_on CHR '','' (bic_uIDs row))))"
    by (rule ext) (simp add: keep_row_def)
  ultimately show ?thesis
    using v build loop res tbl extr by (simp only:) blast
qed

text \<open>
  The example with \<^verbatim>\<open>cell_threshold = 2\<close>: the one admitted bicluster has exactly two
  cells, no identifier holds a comma, and the row is dropped.
\<close>

theorem bicluster_instant_admission_and_threshold_witness:
  "bicluster_instant plain_helpers adata_ex ''4'' 100 50000 True (1/1000) 2 1 =
     Some (Returned (adata_ex\<lparr>uns := (uns adata_ex)(''instant_biclustering'' \<mapsto>
       BiclusterTable [])\<rparr>)) \<and>
   (\<exists>tbl pval_matrix gene_pairs df_results step expanded score_issues.
     uns adata_ex ''cpb_results'' = Some (CpbTable tbl) \<and>
     build_results plain_helpers adata_ex ''4'' 100 50000 True (1/1000) 1 (CpbTable tbl) =
       Inr (df_results, step) \<and>
     extract_pvalues adata_ex ''4'' (filter_cpb (1/1000) tbl) = Inr pval_matrix \<and>
     list_all2
       (\<lambda>b row. 2 < length (cols b) \<and>
          bicluster_row plain_helpers pval_matrix (scale plain_helpers pval_matrix)
            (obs_names adata_ex) gene_pairs
            [1 ..< length (filter_cpb (1/1000) tbl) + 1]
            (drop 1 (log_combs plain_helpers (length (filter_cpb (1/1000) tbl))))
            (drop 1 (log_combs plain_helpers (n_obs adata_ex))) b = Inr row)
       (filter (\<lambda>b. 2 < length (cols b)) (las_run plain_helpers 100 50000 True 1 pval_matrix))
       df_results \<and>
     ((\<forall>u \<in> set (obs_names adata_ex). CHR '','' \<notin> set u) \<longrightarrow>
        (\<forall>row \<in> set df_results. bic_cells row \<noteq> 0 \<longrightarrow>
           length (split_on CHR '','' (bic_uIDs row)) = bic_cells row)) \<and>
     (\<forall>row \<in> set df_results. \<exists>cells.
        set cells \<subseteq> set (obs_names adata_ex) \<and>
        bic_uIDs row = join '','' cells \<and> bic_cells row = length cells \<and>
        length (split_on CHR '','' (bic_uIDs row)) =
          (if cells = [] then 1 else length cells + count_list (concat cells) CHR '','')) \<and>
     expand_loop step (df_results, []) = Some (expanded, score_issues) \<and>
     (\<forall>row \<in> set expanded.
        length (split_on CHR '','' (bic_uIDs row)) = 1 + count_list (bic_uIDs row) CHR '','') \<and>
     adata_ex\<lparr>uns := (uns adata_ex)(''instant_biclustering'' \<mapsto> BiclusterTable [])\<rparr> =
       adata_ex\<lparr>uns := (uns adata_ex)(''instant_biclustering'' \<mapsto>
         BiclusterTable
           (filter (\<lambda>row. 2 < int (length (split_on CHR '','' (bic_uIDs row)))) expanded))\<rparr>)"
proof -
  have run: "bicluster_instant plain_helpers adata_ex ''4'' 100 50000 True (1/1000) 2 1 =
     Some (Returned (adata_ex\<lparr>uns := (uns adata_ex)(''instant_biclustering'' \<mapsto>
       BiclusterTable [])\<rparr>))"
    by (simp add: bicluster_instant_ex)
  from bicluster_instant_admission_and_threshold [OF run] run show ?thesis
    by (intro conjI)
qed

text \<open>The container with a comma in a cell identifier, evaluated.\<close>

lemma uns_comma:
  "uns adata_comma = uns adata_ex"
  "obs_names adata_comma = [''c,0'', ''c1'', ''c2'', ''c3'', ''c4'', ''c5'']"
  "n_obs adata_comma = 6"
  by (simp_all add: adata_comma_def n_obs_def)

lemma extract_comma:
  "extract_pvalues adata_comma ''4'' (filter_cpb (1/1000) cpb_ex) = Inr pval_ex"
  using extract_ex
  by (simp add: extract_pvalues_def uns_comma n_obs_def uns_ex)

lemma build_comma:
  "build_results plain_helpers adata_comma ''4'' 100 50000 True (1/1000) 1 (CpbTable cpb_ex) =
     Inr ([row_comma],
          expand_step plain_helpers pval_ex pval_ex (obs_names adata_comma) [1, 2, 3]
            [0, 0, 0] [0, 0, 0, 0, 0, 0] gene_pairs_ex)"
proof -
  have len: "length (filter_cpb (1/1000) cpb_ex) = 3"
    by (simp add: filter_ex)
  have sc: "scale plain_helpers pval_ex = pval_ex"
    by (simp add: plain_helpers_def)
  have lc: "drop 1 (log_combs plain_helpers 3) = [0, 0, 0]"
    "drop 1 (log_combs plain_helpers 6) = [0, 0, 0, 0, 0, 0]"
    by (simp_all add: plain_helpers_def numeral_3_eq_3 eval_nat_numeral)
  have cr: "[1 ..< 3 + 1] = [1, 2, 3::nat]"
    by (simp add: upt_rec)
  have rows: "initial_rows plain_helpers pval_ex pval_ex (obs_names adata_comma) gene_pairs_ex
     [1, 2, 3] [0, 0, 0] [0, 0, 0, 0, 0, 0]
     (las_run plain_helpers 100 50000 True 1 pval_ex) = Inr [row_comma]"
    by (simp add: initial_rows_def bicluster_row_def plain_helpers_def gene_pairs_ex_def
        uns_comma py_get_def py_strip_def Let_def row_ex_def row_comma_def)
  show ?thesis
    by (simp only: build_results_def as_cpb_def uns_value.case bindE_simps Let_def
        extract_comma format_ex len sc lc cr uns_comma(3) rows)
qed

text \<open>
  Claim C10 as stated fails: the first cell's identifier holds a comma, the one admitted
  bicluster has exactly two cells, and at \<^verbatim>\<open>cell_threshold = 2\<close> its row is kept, because
  its uIDs string splits into three pieces.
\<close>

theorem bicluster_instant_keeps_row_at_threshold:
  "bicluster_instant plain_helpers adata_comma ''4'' 100 50000 True (1/1000) 2 1 =
     Some (Returned (adata_comma\<lparr>uns := (uns adata_comma)(''instant_biclustering'' \<mapsto>
       BiclusterTable [row_comma])\<rparr>)) \<and>
   bic_cells row_comma = 2 \<and>
   bic_uIDs row_comma = join '','' [''c,0'', ''c1''] \<and>
   split_on CHR '','' (bic_uIDs row_comma) = [''c'', ''0'', ''c1'']"
proof -
  let ?step = "expand_step plain_helpers pval_ex pval_ex (obs_names adata_comma) [1, 2, 3]
            [0, 0, 0] [0, 0, 0, 0, 0, 0] gene_pairs_ex"
  have "?step ([row_comma], []) = ([row_comma], [])"
    by (simp add: expand_step_def plain_helpers_def)
  then have "expand_loop ?step ([row_comma], []) = Some ([row_comma], [])"
    using expand_loop_stop [of ?step "([row_comma], [])"] by simp
  moreover have "keep_row 2 row_comma"
    by (simp add: keep_row_def row_comma_def)
  moreover have "uns adata_comma ''cpb_results'' = Some (CpbTable cpb_ex)"
    by (simp add: uns_comma uns_ex)
  ultimately have "bicluster_instant plain_helpers adata_comma ''4'' 100 50000 True (1/1000) 2 1 =
     Some (Returned (adata_comma\<lparr>uns := (uns adata_comma)(''instant_biclustering'' \<mapsto>
       BiclusterTable [row_comma])\<rparr>))"
    by (simp add: bicluster_instant_def build_comma)
  then show ?thesis
    by (simp add: row_comma_def row_ex_def)
qed

end
